theory Spec2Isabelle
  imports Complex_Main "HOL-Library.AList"
begin

section \<open>Numbers of the source\<close>

text \<open>
  The watcher (lib/watcher.js) computes with JavaScript numbers, which are IEEE 754
  doubles. A finite double is modelled by the real number it denotes, and an
  arithmetic operation of the source is the exact operation followed by \<open>rnd\<close>, the
  rounding to the nearest double with ties going to the even significand. Infinity
  and NaN are not values of the model; no operation below reaches the largest double
  from a clock value, a byte count or an interval of less than \<open>10^300\<close> seconds.
\<close>

text \<open>\<open>ilog2 n\<close> is the position of the leading bit of an integer \<open>n \<ge> 1\<close>.\<close>

function ilog2 :: "int \<Rightarrow> int" where
  "ilog2 n = (if n < 2 then 0 else ilog2 (n div 2) + 1)"
  by pat_completeness auto
termination
  by (relation "measure (\<lambda>n. nat n)") auto

declare ilog2.simps [simp del]

text \<open>
  The binary exponent of a positive number: \<open>2^e \<le> x < 2^(e+1)\<close> for \<open>e = binade x\<close>
  (lemma \<open>binade_bounds\<close>). Below 1 the exponent is read off the reciprocal.
\<close>

definition binade :: "real \<Rightarrow> int" where
  "binade x = (if 1 \<le> x then ilog2 \<lfloor>x\<rfloor>
               else if 0 < x then - (ilog2 (\<lceil>1 / x\<rceil> - 1) + 1) else 0)"

text \<open>Rounding to the nearest integer, a tie going to the even one.\<close>

definition rne :: "real \<Rightarrow> int" where
  "rne q = (let f = \<lfloor>q\<rfloor>; d = q - of_int f
            in if d < 1 / 2 then f else if 1 / 2 < d then f + 1
               else if even f then f else f + 1)"

text \<open>
  The distance between neighbouring doubles at \<open>x\<close>: a significand has 53 bits, and
  below the exponent \<open>-1022\<close> the doubles are subnormal and equally spaced.
\<close>

definition ulp :: "real \<Rightarrow> real" where
  "ulp x = 2 powi (max (binade \<bar>x\<bar>) (- 1022) - 52)"

definition rnd :: "real \<Rightarrow> real" where
  "rnd x = (if x = 0 then 0 else of_int (rne (x / ulp x)) * ulp x)"

definition trunc :: "real \<Rightarrow> int" where
  \<comment> \<open>rounding toward zero, as the \<open>%\<close> operator and the Date constructor do\<close>
  "trunc x = (if 0 \<le> x then \<lfloor>x\<rfloor> else \<lceil>x\<rceil>)"

definition js_rem :: "real \<Rightarrow> real \<Rightarrow> real" where
  \<comment> \<open>\<open>a % b\<close>: the remainder takes the sign of the dividend. The remainder of two
      doubles is a double, so nothing is rounded. A zero divisor (NaN in the source)
      does not occur: the constructor replaces a zero interval by 60.\<close>
  "js_rem a b = a - b * of_int (trunc (a / b))"

section \<open>Cycle scheduler\<close>

text \<open>
  \<open>Watcher(config)\<close>: \<open>this.config.intervalSeconds = this.config.intervalSeconds || 60\<close>.
  An absent interval (\<open>None\<close>) and the interval 0 are falsy and become 60.
\<close>

definition intervalSeconds :: "real option \<Rightarrow> real" where
  "intervalSeconds cfg = (case cfg of None \<Rightarrow> 60 | Some c \<Rightarrow> if c = 0 then 60 else c)"

text \<open>
  \<open>scheduleConfigurationCheck\<close> inside \<open>startPeriodicUpdates\<close>; \<open>now_ms\<close> is the value of
  \<open>Date.now()\<close>, a whole number of milliseconds. The result is \<open>dsecs * 1000\<close>, the
  delay in milliseconds that is handed to \<open>setTimeout\<close>. Each of the five operations
  \<open>/\<close>, \<open>+\<close>, \<open>-\<close>, \<open>+\<close>, \<open>*\<close> rounds its result; \<open>%\<close> does not.
\<close>

definition scheduleConfigurationCheck :: "real \<Rightarrow> int \<Rightarrow> real" where
  "scheduleConfigurationCheck configurationScheduledSeconds now_ms =
     (let offset = 5;
          secs = rnd (offset + rnd (of_int now_ms / 1000));
          md = js_rem secs configurationScheduledSeconds;
          dsecs = rnd (rnd (configurationScheduledSeconds - md) + offset)
      in rnd (dsecs * 1000))"

definition startPeriodicUpdates :: "real option \<Rightarrow> int \<Rightarrow> real" where
  "startPeriodicUpdates cfg now_ms = scheduleConfigurationCheck (intervalSeconds cfg) now_ms"

text \<open>
  The next fire time, in seconds since the epoch: now plus the delay. This is the
  time the timer is asked for; how the timer treats a delay that is not a whole
  number of milliseconds is not part of lib/watcher.js.
\<close>

definition next_fire :: "real option \<Rightarrow> int \<Rightarrow> real" where
  "next_fire cfg now_ms = (of_int now_ms + startPeriodicUpdates cfg now_ms) / 1000"

text \<open>Congruence of two times modulo an interval: their difference leaves no remainder.\<close>

definition congruent_mod :: "real \<Rightarrow> real \<Rightarrow> real \<Rightarrow> bool" where
  "congruent_mod a b m \<longleftrightarrow> js_rem (a - b) m = 0"

section \<open>Counter start of a link\<close>

text \<open>
  \<open>updateNetworkUsage\<close>:
  \<open>new Date(bootTimestamp * 1000 + Number(link.crtime) / 1000000000.0).toISOString()\<close>.
  \<open>bootTimestamp\<close> is a whole number of seconds, which a double holds as it is;
  \<open>crtime\<close> is in nanoseconds since boot, and \<open>Number\<close> gives the double nearest to
  the counter. \<open>time_value\<close> is the number handed to the Date constructor, in
  milliseconds since the epoch.
\<close>

definition time_value :: "int \<Rightarrow> int \<Rightarrow> real" where
  "time_value bootTimestamp crtime =
     rnd (rnd (of_int bootTimestamp * 1000) + rnd (rnd (of_int crtime) / 1000000000))"

text \<open>
  The Date constructor truncates the number to whole milliseconds; beyond
  \<open>8.64 * 10^15\<close> milliseconds from the epoch the Date is invalid, and \<open>toISOString\<close>
  raises a RangeError for it. \<open>counter_start_value\<close> is the time value of a valid
  Date; the ISO string is its rendering.
\<close>

definition invalid_date :: "real \<Rightarrow> bool" where
  "invalid_date t \<longleftrightarrow> 8640000000000000 < \<bar>t\<bar>"

definition counter_start_value :: "int \<Rightarrow> int \<Rightarrow> int" where
  "counter_start_value bootTimestamp crtime = trunc (time_value bootTimestamp crtime)"

text \<open>
  What the specification asks for: boot time (seconds) plus the creation offset
  (nanoseconds) as an absolute time, here in the same unit, milliseconds since the epoch.
\<close>

definition counter_start_spec :: "int \<Rightarrow> int \<Rightarrow> int" where
  "counter_start_spec bootTimestamp crtime =
     trunc (of_int bootTimestamp * 1000 + of_int crtime / 1000000)"

section \<open>Objects, errors and outcomes\<close>

text \<open>
  A JavaScript object used as a dictionary is an association list in insertion order,
  the order in which \<open>for (k in obj)\<close> and \<open>Object.keys\<close> enumerate its keys.
  \<open>obj[k] = v\<close> is \<open>AList.update k v\<close>: an existing key keeps its place, a new key
  is appended. (Keys that are written like array indices would be enumerated first;
  uuids, zone names, link names and dataset names are not of that form.) Names and
  property texts are ASCII.
\<close>

type_synonym 'a obj = "(string \<times> 'a) list"

text \<open>An exception or the error argument of a callback, with its message.\<close>

datatype js_error = Error (message: string)

text \<open>
  What an asynchronous stage does with the callback it is given: it invokes it
  without an error, it invokes it with an error, or an exception escapes from the
  stage (nothing catches it).
\<close>

datatype outcome = Completed | Failed js_error | Thrown js_error

section \<open>Network usage collector\<close>

text \<open>One entry of \<open>new kstat.Reader({ module: 'link' }).read()\<close>.\<close>

record link =
  name :: string
  crtime :: int
  obytes64 :: int
  rbytes64 :: int

record sample =
  sent_bytes :: int
  received_bytes :: int
  counter_start :: int

type_synonym usage = "sample obj obj"

definition is_digit :: "char \<Rightarrow> bool" where
  "is_digit c \<longleftrightarrow> c \<in> set ''0123456789''"

definition digit_val :: "char \<Rightarrow> nat" where
  "digit_val c = length (takeWhile (\<lambda>d. d \<noteq> c) ''0123456789'')"

text \<open>\<open>Number(zoneid)\<close> on a string of decimal digits.\<close>

definition Number_digits :: "string \<Rightarrow> nat" where
  "Number_digits ds = foldl (\<lambda>n c. 10 * n + digit_val c) 0 ds"

text \<open>
  \<open>var zoneRE = /z(\d+)_(.*)/\<close> and \<open>link.name.match(zoneRE)\<close>. The expression has no
  anchor, so \<open>match\<close> tries every start position from the left. At one position
  (\<open>zoneRE_at\<close>) it needs a \<open>z\<close>, then the longest run of digits, which must not be
  empty and must be followed by \<open>_\<close> (giving digits back cannot help, the next
  character would be a digit); \<open>(.*)\<close> takes the rest up to a line terminator. The
  result is the pair of groups \<open>(m[1], m[2])\<close>.
\<close>

definition line_terminator :: "char \<Rightarrow> bool" where
  "line_terminator c \<longleftrightarrow> c = CHR 0x0A \<or> c = CHR 0x0D"

fun zoneRE_at :: "string \<Rightarrow> (string \<times> string) option" where
  "zoneRE_at [] = None"
| "zoneRE_at (c # t) =
     (if c = CHR ''z'' then
        (case dropWhile is_digit t of
           [] \<Rightarrow> None
         | u # r \<Rightarrow>
             if takeWhile is_digit t \<noteq> [] \<and> u = CHR ''_''
             then Some (takeWhile is_digit t, takeWhile (\<lambda>x. \<not> line_terminator x) r)
             else None)
      else None)"

fun zoneRE :: "string \<Rightarrow> (string \<times> string) option" where
  "zoneRE [] = None"
| "zoneRE (c # t) =
     (case zoneRE_at (c # t) of Some m \<Rightarrow> Some m | None \<Rightarrow> zoneRE t)"

text \<open>The object literal stored for one statistic, with its \<open>counter_start\<close>.\<close>

definition sample_of :: "int \<Rightarrow> link \<Rightarrow> sample" where
  "sample_of bootTimestamp link =
     \<lparr>sent_bytes = obytes64 link,
      received_bytes = rbytes64 link,
      counter_start = counter_start_value bootTimestamp (crtime link)\<rparr>"

text \<open>
  Lines 233 to 249 of the loop body: \<open>usage[zonename]\<close> and \<open>usage[zonename][linkname]\<close>
  are created when missing, then the sample is stored. The empty object stored first
  under a new link name is overwritten by the sample at once.
\<close>

definition record_sample :: "usage \<Rightarrow> string \<Rightarrow> string \<Rightarrow> sample \<Rightarrow> usage" where
  "record_sample usage zonename linkname stat =
     (let usage1 = (if map_of usage zonename = None
                    then AList.update zonename [] usage else usage);
          links = (case map_of usage1 zonename of None \<Rightarrow> [] | Some ls \<Rightarrow> ls)
      in AList.update zonename (AList.update linkname stat links) usage1)"

text \<open>
  The \<open>while (i--)\<close> loop, over the statistics in the order the loop visits them.
  \<open>gz\<close> is \<open>zutil.getZoneById\<close> followed by \<open>.name\<close>: the name of the zone, or the
  exception raised when there is no zone with that id. \<open>toISOString\<close> raises for an
  invalid Date. The loop has no \<open>try\<close>, so either exception leaves it (\<open>Inl\<close>).
\<close>

fun scanLinks :: "(nat \<Rightarrow> js_error + string) \<Rightarrow> int \<Rightarrow> link list \<Rightarrow> usage \<Rightarrow> js_error + usage"
  where
  "scanLinks gz bootTimestamp [] usage = Inr usage"
| "scanLinks gz bootTimestamp (link # rest) usage =
     (case zoneRE (name link) of
        None \<Rightarrow> scanLinks gz bootTimestamp rest usage
      | Some (zoneid, linkname) \<Rightarrow>
          (case gz (Number_digits zoneid) of
             Inl e \<Rightarrow> Inl e
           | Inr zonename \<Rightarrow>
               if invalid_date (time_value bootTimestamp (crtime link))
               then Inl (Error ''RangeError: Invalid time value'')
               else scanLinks gz bootTimestamp rest
                      (record_sample usage zonename linkname (sample_of bootTimestamp link))))"

section \<open>The watcher and its collaborators\<close>

text \<open>An entry of the zone listing: \<open>z.name\<close>, \<open>z.uuid\<close>, \<open>z.dataset\<close>.\<close>

record zone =
  zone_name :: string
  zone_uuid :: string
  zone_dataset :: string

text \<open>
  The config document of an instance, with the fields the watcher reads:
  \<open>config.name\<close>, \<open>config.zonepath\<close>, \<open>config.attributes.alias\<close>.
\<close>

record vmconfig =
  cfg_name :: string
  zonepath :: string
  attr_alias :: "string option"

text \<open>
  An entry of the registry \<open>self.vms\<close>. \<open>status\<close> and \<open>config\<close> are undefined (\<open>None\<close>)
  until \<open>onVm\<close> assigns them.
\<close>

record vm =
  uuid :: string
  os_uuid :: string
  timestamp :: string
  status :: "string option"
  config :: "vmconfig option"

text \<open>
  A dataset property value: the text delivered by \<open>zfs.get\<close>, or what \<open>parseInt\<close>
  made of it. \<open>Num n\<close> is the number that \<open>parseInt\<close> gives for digits of the value
  \<open>n\<close>. The model keeps \<open>n\<close> itself; the source holds the double nearest to it,
  which is \<open>n\<close> up to \<open>2^53\<close>, more than any byte count of a pool.
\<close>

datatype jsval = Str string | Num int | NaN

type_synonym props = "jsval obj"

type_synonym datasets = "props obj"

datatype log_entry = Warn string | LogError js_error | Info

text \<open>
  The accessors the watcher calls. They are not part of lib/watcher.js; each is a
  parameter of the model, giving what a call delivers during one cycle:
  \<open>common.bootTime\<close>, the \<open>kstat\<close> reader of module \<open>link\<close>, \<open>zutil.getZoneById\<close> with
  \<open>.name\<close> (or the exception it raises), \<open>common.vmListFromFile\<close> (the source reads
  only its second argument, the list of zones: \<open>None\<close> is an undefined list, as a
  listing that failed leaves it, and the zones of a list have distinct names),
  \<open>zutil.getZoneState\<close> (or the exception it raises), \<open>common.vmGet\<close>, the \<open>Buffer\<close>
  decoding of base64 text, \<open>zfs.get\<close> (its error or the properties of all datasets),
  and the ISO rendering of the clock.
\<close>

record env =
  bootTime :: "js_error + int"
  kstat_link :: "link list"
  getZoneById :: "nat \<Rightarrow> js_error + string"
  vmListFromFile :: "zone list option"
  getZoneState :: "string \<Rightarrow> js_error + string"
  vmGet :: "string \<Rightarrow> js_error + vmconfig"
  base64_decode :: "string \<Rightarrow> string"
  zfs_get :: "js_error + datasets"
  now :: string

text \<open>
  The fields of the \<open>Watcher\<close> object that a cycle reads or writes, and the entries
  written to \<open>self.log\<close>. The constructor sets every table to the empty object.
\<close>

record watcher =
  vmPathsToZone :: "string obj"
  vmsToDataset :: "string obj"
  vmDatasetsToPath :: "string obj"
  vms :: "vm obj"
  network :: usage
  disk :: "datasets obj"
  logged :: "log_entry list"

definition Watcher :: watcher where
  "Watcher = \<lparr>vmPathsToZone = [], vmsToDataset = [], vmDatasetsToPath = [],
              vms = [], network = [], disk = [], logged = []\<rparr>"

text \<open>
  \<open>Watcher.prototype.updateNetworkUsage\<close>: the waterfall of the boot-time read and the
  scan. \<open>usage\<close> is a local object that starts empty; \<open>self.network = usage\<close> is in the
  final function, behind the error check. \<open>while (i--)\<close> walks the array from its last
  entry to its first.
\<close>

definition updateNetworkUsage :: "env \<Rightarrow> watcher \<Rightarrow> outcome \<times> watcher" where
  "updateNetworkUsage e w =
     (case bootTime e of
        Inl err \<Rightarrow> (Failed err, w)
      | Inr bootTimestamp \<Rightarrow>
          (case scanLinks (getZoneById e) bootTimestamp (rev (kstat_link e)) [] of
             Inl ex \<Rightarrow> (Thrown ex, w)
           | Inr usage \<Rightarrow> (Completed, w\<lparr>network := usage\<rparr>)))"

section \<open>Instance enumerator\<close>

text \<open>
  \<open>e.message.match(/no such zone configured/i)\<close>: the text occurs somewhere in the
  message, in any letter case. The pattern is in lower case, so the message is
  lowered and searched.
\<close>

definition lower :: "char \<Rightarrow> char" where
  "lower c = (case map_of (zip ''ABCDEFGHIJKLMNOPQRSTUVWXYZ'' ''abcdefghijklmnopqrstuvwxyz'') c of
                None \<Rightarrow> c | Some l \<Rightarrow> l)"

fun search :: "string \<Rightarrow> string \<Rightarrow> bool" where
  "search pat [] = (pat = [])"
| "search pat (c # t) = (take (length pat) (c # t) = pat \<or> search pat t)"

definition no_such_zone :: "string \<Rightarrow> bool" where
  "no_such_zone msg = search ''no such zone configured'' (map lower msg)"

text \<open>
  The synchronous part of \<open>onVm\<close>, up to the call of \<open>common.vmGet\<close>. The instance is
  entered into \<open>self.vms\<close> before its state is read. In the \<open>catch\<close> branch for a
  destroyed zone the warning is logged and \<open>cb()\<close> is called; there is no \<open>return\<close>,
  so \<open>common.vmGet\<close> is called all the same. Any other exception is thrown again.
  \<open>Started w called_back asked\<close>: the new state, whether \<open>cb()\<close> was called, and
  whether \<open>common.vmGet\<close> was called. \<open>Raised w ex\<close>: the exception left \<open>onVm\<close>.
\<close>

datatype started = Started watcher bool bool | Raised watcher js_error

definition onVm_sync :: "env \<Rightarrow> zone \<Rightarrow> watcher \<Rightarrow> started" where
  "onVm_sync e z w =
     (if zone_name z = ''global'' then Started w True False
      else
        (let vm = \<lparr>uuid = zone_name z, os_uuid = zone_uuid z, timestamp = now e,
                    status = None, config = None\<rparr>;
             w1 = w\<lparr>vms := AList.update (zone_name z) vm (vms w)\<rparr>
         in case getZoneState e (uuid vm) of
              Inr st \<Rightarrow>
                Started (w1\<lparr>vms := AList.update (zone_name z) (vm\<lparr>status := Some st\<rparr>) (vms w1)\<rparr>)
                  False True
            | Inl ex \<Rightarrow>
                if no_such_zone (message ex)
                then Started (w1\<lparr>logged := logged w1 @ [Warn (uuid vm)]\<rparr>) True True
                else Raised w1 ex))"

text \<open>
  The callback given to \<open>common.vmGet\<close>, and what it signals: \<open>callback(error)\<close> of
  \<open>updateVirtualMachines\<close> itself, or \<open>cb()\<close> of its item. \<open>vm\<close> is the object entered
  into \<open>self.vms\<close> under \<open>z.name\<close> by the synchronous part.
  \<open>z.dataset.replace(/^\//, '')\<close> drops one leading slash.
\<close>

datatype signal = Cb | Callback js_error

definition onVm_vmGet :: "env \<Rightarrow> zone \<Rightarrow> watcher \<Rightarrow> watcher \<times> signal" where
  "onVm_vmGet e z w =
     (case vmGet e (zone_name z) of
        Inl error \<Rightarrow> (w, Callback error)
      | Inr vmrec \<Rightarrow>
          (let cfg = (case attr_alias vmrec of
                        None \<Rightarrow> vmrec
                      | Some a \<Rightarrow> if a = [] then vmrec
                                  else vmrec\<lparr>attr_alias := Some (base64_decode e a)\<rparr>);
               dataset = (case zone_dataset z of [] \<Rightarrow> []
                          | c # t \<Rightarrow> if c = CHR ''/'' then t else c # t);
               w1 = w\<lparr>vms := (case map_of (vms w) (zone_name z) of
                                None \<Rightarrow> vms w
                              | Some vm \<Rightarrow>
                                  AList.update (zone_name z) (vm\<lparr>config := Some cfg\<rparr>) (vms w)),
                      vmDatasetsToPath := AList.update dataset (zone_dataset z) (vmDatasetsToPath w),
                      vmPathsToZone := AList.update (zone_dataset z) (zone_name z) (vmPathsToZone w),
                      vmsToDataset := AList.update (zone_name z) dataset (vmsToDataset w)\<rparr>
           in (w1, Cb)))"

text \<open>
  \<open>async.each(vms, onVm, function () { callback(); })\<close>. Every item \<open>i\<close> of the array
  gets a function \<open>cb\<close> of its own. Called for the first time it counts the item, and
  when the count reaches the number \<open>n\<close> of items the final function runs, which
  invokes \<open>callback()\<close> of the stage; called a second time it raises
  \<open>Callback was already called.\<close> \<open>called\<close> lists the items counted so far. The result
  is the exception, or the new list with the invocations of \<open>callback\<close> that the call
  causes: none, or one without an error (\<open>Completed\<close>).
\<close>

definition each_cb :: "nat \<Rightarrow> nat \<Rightarrow> nat list \<Rightarrow> js_error + nat list \<times> outcome list" where
  "each_cb n i called =
     (if i \<in> set called then Inl (Error ''Callback was already called.'')
      else Inr (i # called, if n \<le> Suc (length called) then [Completed] else []))"

text \<open>
  The run of \<open>async.each\<close> over the zones. The iterator is started on every zone in
  turn, item \<open>i\<close> on the zone \<open>z\<close> at the head of the list; a call of \<open>common.vmGet\<close>
  is added to the outstanding ones. When all are started, the outstanding callbacks
  are delivered, in the order of the calls. The result lists what the stage does with
  its \<open>callback\<close>, in order: \<open>Completed\<close> for \<open>callback()\<close>, \<open>Failed error\<close> for
  \<open>callback(error)\<close>, and \<open>Thrown ex\<close> for an exception. Nothing catches an exception,
  so the run ends with it, and what is outstanding then is not delivered.
\<close>

fun each_vm :: "env \<Rightarrow> nat \<Rightarrow> nat \<Rightarrow> zone list \<Rightarrow> (nat \<times> zone) list \<Rightarrow> nat list \<Rightarrow> watcher
    \<Rightarrow> outcome list \<times> watcher" where
  "each_vm e n i (z # zs) pending called w =
     (case onVm_sync e z w of
        Raised w1 ex \<Rightarrow> ([Thrown ex], w1)
      | Started w1 called_back asked \<Rightarrow>
          (case (if called_back then each_cb n i called else Inr (called, [])) of
             Inl ex \<Rightarrow> ([Thrown ex], w1)
           | Inr (called1, cs) \<Rightarrow>
               (case each_vm e n (Suc i) zs (pending @ (if asked then [(i, z)] else []))
                       called1 w1 of
                  (cs2, w2) \<Rightarrow> (cs @ cs2, w2))))"
| "each_vm e n i [] ((j, z) # pending) called w =
     (case onVm_vmGet e z w of
        (w1, Callback error) \<Rightarrow>
          (case each_vm e n i [] pending called w1 of
             (cs2, w2) \<Rightarrow> (Failed error # cs2, w2))
      | (w1, Cb) \<Rightarrow>
          (case each_cb n j called of
             Inl ex \<Rightarrow> ([Thrown ex], w1)
           | Inr (called1, cs) \<Rightarrow>
               (case each_vm e n i [] pending called1 w1 of
                  (cs2, w2) \<Rightarrow> (cs @ cs2, w2))))"
| "each_vm e n i [] [] called w = ([], w)"

text \<open>
  \<open>Watcher.prototype.updateVirtualMachines\<close>. The error argument of the zone listing is
  ignored and the list is handed to \<open>async.each\<close>, which reads its length: an
  undefined list raises a TypeError there, and for an empty one the final function
  runs at once.
\<close>

definition updateVirtualMachines :: "env \<Rightarrow> watcher \<Rightarrow> outcome list \<times> watcher" where
  "updateVirtualMachines e w =
     (case vmListFromFile e of
        None \<Rightarrow> ([Thrown (Error ''TypeError: arr is undefined'')], w)
      | Some zones \<Rightarrow>
          if zones = [] then ([Completed], w)
          else each_vm e (length zones) 0 zones [] [] w)"

section \<open>Disk usage collector\<close>

text \<open>\<open>function startsWith (a, str) { return a.slice(0, str.length) === str; }\<close>\<close>

definition startsWith :: "string \<Rightarrow> string \<Rightarrow> bool" where
  "startsWith a str \<longleftrightarrow> take (length str) a = str"

text \<open>
  \<open>String.prototype.slice(start, end)\<close>: a negative index counts from the end, and
  both are clamped to the string. \<open>indexOf\<close> gives \<open>-1\<close> when the character does not
  occur.
\<close>

definition slice :: "string \<Rightarrow> int \<Rightarrow> int \<Rightarrow> string" where
  "slice s start stop =
     (let len = int (length s);
          lo = (if start < 0 then max (len + start) 0 else min start len);
          hi = (if stop < 0 then max (len + stop) 0 else min stop len)
      in take (nat (hi - lo)) (drop (nat lo) s))"

definition slice_from :: "string \<Rightarrow> int \<Rightarrow> string" where
  "slice_from s start = slice s start (int (length s))"

definition indexOf :: "string \<Rightarrow> char \<Rightarrow> int" where
  "indexOf s c = (if c \<in> set s then int (length (takeWhile (\<lambda>x. x \<noteq> c) s)) else - 1)"

text \<open>
  \<open>parseInt(value, 10)\<close>: the value is turned into a string, leading white space is
  skipped, a sign is read, and the longest run of decimal digits gives the number;
  without a digit the result is \<open>NaN\<close>. A number that is already an integer is
  written in decimal digits by \<open>ToString\<close> (the source does so below \<open>10^21\<close>). The
  value of the digits is kept as it is, see \<open>jsval\<close>.
\<close>

definition is_space :: "char \<Rightarrow> bool" where
  "is_space c \<longleftrightarrow> c \<in> set [CHR 0x09, CHR 0x0A, CHR 0x0B, CHR 0x0C, CHR 0x0D, CHR '' '']"

definition digit_char :: "nat \<Rightarrow> char" where
  "digit_char n = ''0123456789'' ! n"

function digits_of :: "nat \<Rightarrow> string" where
  "digits_of n = (if n < 10 then [digit_char n] else digits_of (n div 10) @ [digit_char (n mod 10)])"
  by pat_completeness auto
termination
  by (relation "measure (\<lambda>n. n)") auto

declare digits_of.simps [simp del]

definition ToString :: "jsval \<Rightarrow> string" where
  "ToString v =
     (case v of
        Str s \<Rightarrow> s
      | Num n \<Rightarrow> if n < 0 then CHR ''-'' # digits_of (nat (- n)) else digits_of (nat n)
      | NaN \<Rightarrow> ''NaN'')"

definition parseInt :: "jsval \<Rightarrow> jsval" where
  "parseInt v =
     (let s = dropWhile is_space (ToString v);
          neg = (take 1 s = ''-'');
          t = (if take 1 s = ''-'' \<or> take 1 s = ''+'' then drop 1 s else s);
          ds = takeWhile is_digit t
      in if ds = [] then NaN
         else Num (if neg then - int (Number_digits ds) else int (Number_digits ds)))"

definition numKeys :: "string list" where
  "numKeys = [''used'', ''available'', ''referenced'', ''quota'', ''volsize'']"

text \<open>
  The loop \<open>for (var k in self.disk[uuid][d])\<close> of \<open>add\<close>: a value that is not the
  text \<open>-\<close> and whose key is in \<open>numKeys\<close> is replaced by its \<open>parseInt\<close>.
\<close>

definition coerce :: "props \<Rightarrow> props" where
  "coerce ps = map (\<lambda>(k, v). (k, if v \<noteq> Str ''-'' \<and> k \<in> set numKeys then parseInt v else v)) ps"

text \<open>
  \<open>add(d)\<close>: \<open>self.disk[uuid][d] = datasets[d]\<close> stores the object of the listing itself,
  and the loop then changes that object in place. The state is the pair of the
  listing and \<open>self.disk\<close>; both hold the changed object. \<open>d\<close> is always a key of the
  listing, \<open>add\<close> being called from \<open>for (var d in datasets)\<close> only.
\<close>

definition add :: "string \<Rightarrow> string \<Rightarrow> datasets \<times> datasets obj \<Rightarrow> datasets \<times> datasets obj" where
  "add u d st =
     (case map_of (fst st) d of
        None \<Rightarrow> st
      | Some ps \<Rightarrow>
          (let m = (case map_of (snd st) u of None \<Rightarrow> [] | Some m \<Rightarrow> m)
           in (AList.update d (coerce ps) (fst st),
               AList.update u (AList.update d (coerce ps) m) (snd st))))"

text \<open>
  The two prefixes computed in the loop body: \<open>vm.config.zonepath.slice(1)\<close>, and
  \<open>pool + '/cores/' + vm.uuid\<close> with
  \<open>pool = zonepath.slice(0, zonepath.indexOf('/'))\<close>.
\<close>

definition zonepath_prefix :: "vmconfig \<Rightarrow> string" where
  "zonepath_prefix cfg = slice_from (zonepath cfg) 1"

definition cores_prefix :: "vm \<Rightarrow> vmconfig \<Rightarrow> string" where
  "cores_prefix vm cfg =
     (let zp = slice_from (zonepath cfg) 1;
          pool = slice zp 0 (indexOf zp CHR ''/'')
      in pool @ ''/cores/'' @ uuid vm)"

text \<open>
  The loop \<open>for (var d in datasets)\<close> of the iterator, for the instance \<open>vm\<close> stored
  under the key \<open>u\<close>. Reading \<open>vm.config.zonepath\<close> raises a TypeError when \<open>vm.config\<close>
  is undefined. The two tests are separate statements, so a dataset that passes both
  is added twice. The result is the exception, if any, and the state reached.
\<close>

fun for_datasets :: "vm \<Rightarrow> string \<Rightarrow> string list \<Rightarrow> datasets \<times> datasets obj
    \<Rightarrow> js_error option \<times> (datasets \<times> datasets obj)" where
  "for_datasets vm u [] st = (None, st)"
| "for_datasets vm u (d # rest) st =
     (case config vm of
        None \<Rightarrow> (Some (Error ''TypeError: vm.config is undefined''), st)
      | Some cfg \<Rightarrow>
          (let st1 = (if startsWith d (zonepath_prefix cfg) then add u d st else st);
               st2 = (if startsWith d (cores_prefix vm cfg) then add u d st1 else st1)
           in for_datasets vm u rest st2))"

text \<open>
  The iterator of \<open>async.each(Object.keys(self.vms), ...)\<close> for one key: an existing
  \<open>self.disk[uuid]\<close> is kept, a missing one is created empty.
\<close>

definition disk_vm :: "vm obj \<Rightarrow> string \<Rightarrow> datasets \<times> datasets obj
    \<Rightarrow> js_error option \<times> (datasets \<times> datasets obj)" where
  "disk_vm registry u st =
     (case map_of registry u of
        None \<Rightarrow> (Some (Error ''TypeError: vm is undefined''), st)
      | Some vm \<Rightarrow>
          for_datasets vm u (map fst (fst st))
            (fst st, if map_of (snd st) u = None then AList.update u [] (snd st) else snd st))"

fun each_disk :: "vm obj \<Rightarrow> string list \<Rightarrow> datasets \<times> datasets obj
    \<Rightarrow> js_error option \<times> (datasets \<times> datasets obj)" where
  "each_disk registry [] st = (None, st)"
| "each_disk registry (u # us) st =
     (case disk_vm registry u st of
        (Some ex, st1) \<Rightarrow> (Some ex, st1)
      | (None, st1) \<Rightarrow> each_disk registry us st1)"

text \<open>
  \<open>Watcher.prototype.updateDisk\<close>. An error of \<open>zfs.get\<close> is passed to \<open>cb(geterr)\<close>
  and so reaches the final function of the waterfall, \<open>function () { callback(); }\<close>,
  which takes no argument and calls \<open>callback()\<close> without the error: the stage
  completes with \<open>self.disk\<close> as it was. An exception in the iterator leaves the
  stage; what it stored in \<open>self.disk\<close> before stays there.
\<close>

definition updateDisk :: "env \<Rightarrow> watcher \<Rightarrow> outcome \<times> watcher" where
  "updateDisk e w =
     (case zfs_get e of
        Inl geterr \<Rightarrow> (Completed, w)
      | Inr datasets \<Rightarrow>
          (case each_disk (vms w) (map fst (vms w)) (datasets, disk w) of
             (None, st) \<Rightarrow> (Completed, w\<lparr>disk := snd st\<rparr>)
           | (Some ex, st) \<Rightarrow> (Thrown ex, w\<lparr>disk := snd st\<rparr>)))"

section \<open>Transform and emission\<close>

text \<open>The record built by \<open>transformVm\<close>, the payload of a \<open>vm-update\<close> event.\<close>

record snapshot =
  s_zonename :: string
  s_zonepath :: string
  s_uuid :: string
  s_os_uuid :: string
  s_status :: "string option"
  s_config :: vmconfig
  network_usage :: "sample obj option"
  disk_usage :: "datasets option"
  s_timestamp :: string
  s_v :: string

text \<open>
  \<open>Watcher.prototype.transformVm\<close>. \<open>vmObj.config.name\<close> raises a TypeError when the
  config is undefined. \<open>JSON.parse(JSON.stringify(vmObj.config))\<close> is a copy.
\<close>

definition transformVm :: "watcher \<Rightarrow> vm \<Rightarrow> js_error + snapshot" where
  "transformVm w vmObj =
     (case config vmObj of
        None \<Rightarrow> Inl (Error ''TypeError: vmObj.config is undefined'')
      | Some cfg \<Rightarrow>
          Inr \<lparr>s_zonename = cfg_name cfg,
               s_zonepath = zonepath cfg,
               s_uuid = cfg_name cfg,
               s_os_uuid = os_uuid vmObj,
               s_status = status vmObj,
               s_config = cfg,
               network_usage = map_of (network w) (cfg_name cfg),
               disk_usage = map_of (disk w) (cfg_name cfg),
               s_timestamp = timestamp vmObj,
               s_v = ''1''\<rparr>)"

text \<open>
  \<open>Watcher.prototype.transform\<close>: \<open>async.each\<close> over \<open>Object.keys(self.vms)\<close>, storing each
  record under its \<open>uuid\<close> in the local object \<open>vms\<close>.
\<close>

fun transform_each :: "watcher \<Rightarrow> string list \<Rightarrow> snapshot obj \<Rightarrow> js_error + snapshot obj" where
  "transform_each w [] acc = Inr acc"
| "transform_each w (k # ks) acc =
     (case map_of (vms w) k of
        None \<Rightarrow> Inl (Error ''TypeError: vmObj is undefined'')
      | Some vmObj \<Rightarrow>
          (case transformVm w vmObj of
             Inl ex \<Rightarrow> Inl ex
           | Inr s \<Rightarrow> transform_each w ks (AList.update (s_uuid s) s acc)))"

definition transform :: "watcher \<Rightarrow> js_error + snapshot obj" where
  "transform w = transform_each w (map fst (vms w)) []"

text \<open>
  What a cycle lets out: a \<open>vm-update\<close> event, or an exception that nothing catches.
\<close>

datatype event = VmUpdate snapshot | Uncaught js_error

text \<open>
  The final function of the waterfall in \<open>gatherStateAllZones\<close>: it logs the error,
  if any, and the duration.
\<close>

definition finish :: "js_error option \<Rightarrow> watcher \<Rightarrow> watcher" where
  "finish err w =
     w\<lparr>logged := logged w @ (case err of None \<Rightarrow> [] | Some x \<Rightarrow> [LogError x]) @ [Info]\<rparr>"

text \<open>
  \<open>async.waterfall\<close> hands each task a callback. Invoked with an error, it calls the
  final function with the error and replaces it by an empty function. Invoked without
  an error, it schedules the next task, whether or not it was invoked before.
  \<open>stage_calls\<close> applies this to the invocations that the enumerator makes, in order;
  \<open>finished\<close> says that the final function has been called and replaced, \<open>scheduled\<close>
  that the next task has been scheduled. The result starts with the exception that
  ended the enumerator, if any.
\<close>

fun stage_calls :: "outcome list \<Rightarrow> bool \<Rightarrow> bool \<Rightarrow> watcher
    \<Rightarrow> js_error option \<times> bool \<times> bool \<times> watcher" where
  "stage_calls [] finished scheduled w = (None, finished, scheduled, w)"
| "stage_calls (Completed # cs) finished scheduled w = stage_calls cs finished True w"
| "stage_calls (Failed err # cs) finished scheduled w =
     stage_calls cs True scheduled (if finished then w else finish (Some err) w)"
| "stage_calls (Thrown ex # cs) finished scheduled w = (Some ex, finished, scheduled, w)"

text \<open>
  \<open>Watcher.prototype.gatherStateAllZones\<close>: the waterfall of the four stages and the
  emitting function. The network stage invokes its callback once, or raises. The
  tasks after the enumerator are started from \<open>setImmediate\<close> and wait for \<open>zfs.get\<close>;
  they run when the outstanding callbacks of \<open>common.vmGet\<close> have been delivered. An
  exception that nothing catches ends the cycle. The callback of the emitting
  function is the final function, or the empty function that has replaced it.
\<close>

definition gatherStateAllZones :: "env \<Rightarrow> watcher \<Rightarrow> event list \<times> watcher" where
  "gatherStateAllZones e w =
     (case updateNetworkUsage e w of
        (Failed err, w1) \<Rightarrow> ([], finish (Some err) w1)
      | (Thrown ex, w1) \<Rightarrow> ([Uncaught ex], w1)
      | (Completed, w1) \<Rightarrow>
          (case updateVirtualMachines e w1 of
             (cs, w2) \<Rightarrow>
               (case stage_calls cs False False w2 of
                  (Some ex, finished, scheduled, w3) \<Rightarrow> ([Uncaught ex], w3)
                | (None, finished, False, w3) \<Rightarrow> ([], w3)
                | (None, finished, True, w3) \<Rightarrow>
                    (case updateDisk e w3 of
                       (Failed err, w4) \<Rightarrow> ([], if finished then w4 else finish (Some err) w4)
                     | (Thrown ex, w4) \<Rightarrow> ([Uncaught ex], w4)
                     | (Completed, w4) \<Rightarrow>
                         (case transform w4 of
                            Inl ex \<Rightarrow> ([Uncaught ex], w4)
                          | Inr snaps \<Rightarrow>
                              (map (\<lambda>kv. VmUpdate (snd kv)) snaps,
                               if finished then w4 else finish None w4))))))"

section \<open>An example host\<close>

text \<open>
  Concrete accessor results, used to run the model: two instances \<open>abc\<close> and \<open>def\<close>
  with zone ids 1 and 3 on the pool \<open>pool0\<close>, booted at second 1000000.
\<close>

definition zone_by_id :: "nat \<Rightarrow> js_error + string" where
  "zone_by_id i = (if i = 1 then Inr ''abc'' else if i = 3 then Inr ''def''
                   else Inl (Error ''getzonenamebyid: Invalid argument''))"

definition stat :: "string \<Rightarrow> link" where
  "stat nm = \<lparr>name = nm, crtime = 5000000000, obytes64 = 10, rbytes64 = 20\<rparr>"

definition zone_of :: "string \<Rightarrow> zone" where
  "zone_of u = \<lparr>zone_name = u, zone_uuid = ''os-'' @ u, zone_dataset = ''/pool0/zones/'' @ u\<rparr>"

definition all_running :: "string \<Rightarrow> js_error + string" where
  "all_running u = Inr ''running''"

definition abc_destroyed :: "string \<Rightarrow> js_error + string" where
  "abc_destroyed u = (if u = ''abc'' then Inl (Error ''zone_get_state: No such zone configured'')
                      else Inr ''running'')"

definition config_of :: "string \<Rightarrow> js_error + vmconfig" where
  "config_of u = Inr \<lparr>cfg_name = u, zonepath = ''/pool0/zones/'' @ u, attr_alias = None\<rparr>"

definition config_abc_gone :: "string \<Rightarrow> js_error + vmconfig" where
  "config_abc_gone u = (if u = ''abc'' then Inl (Error ''ENOENT: abc.xml'') else config_of u)"

definition listing :: datasets where
  "listing =
     [(''pool0/zones/abc'', [(''used'', Str ''1024''), (''quota'', Str ''-''),
                            (''type'', Str ''filesystem'')]),
      (''pool0/cores/abc'', [(''used'', Str ''31''), (''volsize'', Str ''-''),
                            (''mountpoint'', Str ''/pool0/cores/abc'')]),
      (''pool0/zones/def'', [(''used'', Str ''2048''), (''available'', Str ''-''),
                            (''origin'', Str ''-'')]),
      (''pool0/swap'', [(''used'', Str ''7''), (''volsize'', Str ''4096'')])]"

definition host :: "link list \<Rightarrow> zone list \<Rightarrow> (string \<Rightarrow> js_error + string)
    \<Rightarrow> (string \<Rightarrow> js_error + vmconfig) \<Rightarrow> env" where
  "host stats zones states configs =
     \<lparr>bootTime = Inr 1000000, kstat_link = stats, getZoneById = zone_by_id,
      vmListFromFile = Some zones, getZoneState = states, vmGet = configs,
      base64_decode = (\<lambda>a. a), zfs_get = Inr listing, now = ''2013-06-01T00:00:05.000Z''\<rparr>"

text \<open>The same host after the instance \<open>abc\<close> and its datasets are gone.\<close>

definition listing_without_abc :: datasets where
  "listing_without_abc =
     [(''pool0/zones/def'', [(''used'', Str ''2048''), (''available'', Str ''-''),
                            (''origin'', Str ''-'')]),
      (''pool0/swap'', [(''used'', Str ''7''), (''volsize'', Str ''4096'')])]"

definition host_without_abc :: env where
  "host_without_abc =
     (host [stat ''z3_net1''] [zone_of ''def''] all_running config_of)
       \<lparr>zfs_get := Inr listing_without_abc, now := ''2013-06-01T00:01:05.000Z''\<rparr>"

text \<open>The uuids of the \<open>vm-update\<close> events among the events of a cycle, in order.\<close>

fun emitted_uuids :: "event list \<Rightarrow> string list" where
  "emitted_uuids [] = []"
| "emitted_uuids (VmUpdate s # evs) = s_uuid s # emitted_uuids evs"
| "emitted_uuids (Uncaught ex # evs) = emitted_uuids evs"

definition no_boot_time :: "env \<Rightarrow> env" where
  "no_boot_time e = e\<lparr>bootTime := Inl (Error ''kstat: boot_time is not available'')\<rparr>"

text \<open>A host on which \<open>zfs.get\<close> fails, and one on which the zone listing fails.\<close>

definition zfs_fails :: "env \<Rightarrow> env" where
  "zfs_fails e = e\<lparr>zfs_get := Inl (Error ''zfs get: cannot open pool0'')\<rparr>"

definition no_zone_listing :: "env \<Rightarrow> env" where
  "no_zone_listing e = e\<lparr>vmListFromFile := None\<rparr>"

text \<open>The uuid and the disk usage of every \<open>vm-update\<close> event of a cycle, in order.\<close>

fun emitted_disk_usage :: "event list \<Rightarrow> (string \<times> datasets option) list" where
  "emitted_disk_usage [] = []"
| "emitted_disk_usage (VmUpdate s # evs) = (s_uuid s, disk_usage s) # emitted_disk_usage evs"
| "emitted_disk_usage (Uncaught ex # evs) = emitted_disk_usage evs"

section \<open>Predicates of the specification\<close>

text \<open>The properties stored in \<open>self.disk\<close> under (instance, dataset name), if any.\<close>

definition dataset_at :: "datasets obj \<Rightarrow> string \<Rightarrow> string \<Rightarrow> props option" where
  "dataset_at dk u d = (case map_of dk u of None \<Rightarrow> None | Some m \<Rightarrow> map_of m d)"

text \<open>
  A dataset is attached to an instance when its name passes one of the two tests of
  the loop.
\<close>

definition attaches :: "vm \<Rightarrow> vmconfig \<Rightarrow> string \<Rightarrow> bool" where
  "attaches vm cfg d \<longleftrightarrow> startsWith d (zonepath_prefix cfg) \<or> startsWith d (cores_prefix vm cfg)"

text \<open>
  The listing as the stage holds it at some moment, against the listing \<open>ds0\<close> that
  \<open>zfs.get\<close> delivered: the same dataset names in the same order, and objects that
  differ at most by the conversion of \<open>add\<close>.
\<close>

definition same_listing :: "datasets \<Rightarrow> datasets \<Rightarrow> bool" where
  "same_listing ds0 ds \<longleftrightarrow>
     map fst ds = map fst ds0
   \<and> (\<forall>d. map_option coerce (map_of ds d) = map_option coerce (map_of ds0 d))"

text \<open>The sample stored under (zone name, link name), if any.\<close>

definition sample_at :: "usage \<Rightarrow> string \<Rightarrow> string \<Rightarrow> sample option" where
  "sample_at u zonename linkname =
     (case map_of u zonename of None \<Rightarrow> None | Some ls \<Rightarrow> map_of ls linkname)"

text \<open>
  The pattern as the specification words it: the name is a \<open>z\<close>, a decimal zone id, an
  underscore, then the link name.
\<close>

definition zone_link_name :: "string \<Rightarrow> bool" where
  "zone_link_name s \<longleftrightarrow>
     (case s of
        [] \<Rightarrow> False
      | c # t \<Rightarrow> c = CHR ''z'' \<and> takeWhile is_digit t \<noteq> []
                 \<and> take 1 (dropWhile is_digit t) = ''_'')"

section \<open>Properties of the rounding\<close>

lemma p2_Suc: "(2::real) powi (k + 1) = 2 * 2 powi k"
  by (rule power_int_add_1') simp

lemma p2_pred: "(2::real) powi (k - 1) = 2 powi k / 2"
  using p2_Suc [of "k - 1"] by simp

lemma ilog2_bounds:
  "1 \<le> n \<Longrightarrow> 0 \<le> ilog2 n \<and> 2 ^ nat (ilog2 n) \<le> n \<and> n < 2 ^ (nat (ilog2 n) + 1)"
proof (induction n rule: ilog2.induct)
  case (1 n)
  show ?case
  proof (cases "n < 2")
    case True
    with "1.prems" have "n = 1" by simp
    then show ?thesis by (simp add: ilog2.simps [of 1])
  next
    case False
    define m where "m = n div 2"
    define k where "k = nat (ilog2 m)"
    have m1: "1 \<le> m" using False by (simp add: m_def)
    from "1.IH" [OF False] m1
    have ih: "0 \<le> ilog2 m" "2 ^ k \<le> m" "m < 2 ^ (k + 1)"
      by (simp_all add: m_def k_def)
    have eq: "ilog2 n = ilog2 m + 1"
      using False by (subst ilog2.simps) (simp add: m_def)
    then have nk: "nat (ilog2 n) = k + 1" using ih(1) by (simp add: k_def nat_add_distrib)
    have "2 * m \<le> n" "n < 2 * m + 2" unfolding m_def by linarith+
    moreover have "m + 1 \<le> 2 ^ (k + 1)" using ih(3) by simp
    ultimately have "2 ^ (k + 1) \<le> n" "n < 2 ^ (k + 1 + 1)"
      using ih(2) by simp_all
    then show ?thesis using eq ih(1) nk by simp
  qed
qed

lemma p2_nat: "0 \<le> k \<Longrightarrow> (2::real) powi k = 2 ^ nat k"
  by (simp add: power_int_def)

lemma binade_bounds: "0 < x \<Longrightarrow> 2 powi (binade x) \<le> x \<and> x < 2 powi (binade x + 1)"
proof (cases "1 \<le> x")
  case True
  define n where "n = \<lfloor>x\<rfloor>"
  define k where "k = nat (ilog2 n)"
  have n1: "1 \<le> n" using True by (simp add: n_def le_floor_iff)
  from ilog2_bounds [OF n1] have b: "0 \<le> ilog2 n" "2 ^ k \<le> n" "n < 2 ^ (k + 1)"
    by (simp_all add: k_def)
  have bx: "binade x = ilog2 n" using True by (simp add: binade_def n_def)
  have "(2::real) ^ k \<le> of_int n" using b(2) by simp
  moreover have "of_int n \<le> x" by (simp add: n_def)
  ultimately have lo: "2 ^ k \<le> x" by linarith
  have "n + 1 \<le> 2 ^ (k + 1)" using b(3) by simp
  then have "of_int (n + 1) \<le> (2::real) ^ (k + 1)" by (simp only: of_int_le_numeral_power_cancel_iff)
  moreover have "x < of_int (n + 1)" unfolding n_def by linarith
  ultimately have hi: "x < 2 ^ (k + 1)" by linarith
  have "(2::real) powi (binade x) = 2 ^ k" using b(1) by (simp add: bx p2_nat k_def)
  moreover have "(2::real) powi (binade x + 1) = 2 ^ (k + 1)"
    using b(1) by (simp add: bx p2_nat k_def nat_add_distrib)
  ultimately show ?thesis using lo hi by simp
next
  case False
  assume pos: "0 < x"
  define y where "y = 1 / x"
  define n where "n = \<lceil>y\<rceil> - 1"
  define k where "k = nat (ilog2 n)"
  have y1: "1 < y" using False pos by (simp add: y_def)
  then have "2 \<le> \<lceil>y\<rceil>" by linarith
  then have n1: "1 \<le> n" by (simp add: n_def)
  from ilog2_bounds [OF n1] have b: "0 \<le> ilog2 n" "2 ^ k \<le> n" "n < 2 ^ (k + 1)"
    by (simp_all add: k_def)
  have bx: "binade x = - (ilog2 n + 1)"
    using False pos by (simp add: binade_def n_def y_def)
  have "(2::real) ^ k \<le> of_int n" using b(2) by simp
  moreover have "of_int n < y" unfolding n_def by linarith
  ultimately have lo: "2 ^ k < y" by linarith
  have "n + 1 \<le> 2 ^ (k + 1)" using b(3) by simp
  then have "of_int (n + 1) \<le> (2::real) ^ (k + 1)" by (simp only: of_int_le_numeral_power_cancel_iff)
  moreover have "y \<le> of_int (n + 1)" unfolding n_def by linarith
  ultimately have hi: "y \<le> 2 ^ (k + 1)" by linarith
  have x: "x = 1 / y" using pos by (simp add: y_def)
  have "(2::real) powi (binade x) = 1 / 2 ^ (k + 1)"
  proof -
    have "(2::real) powi (binade x) = inverse (2 powi (ilog2 n + 1))"
      unfolding bx by (simp only: power_int_minus)
    also have "(2::real) powi (ilog2 n + 1) = 2 ^ (k + 1)"
      using b(1) by (simp add: p2_nat k_def nat_add_distrib)
    finally show ?thesis by (simp add: inverse_eq_divide)
  qed
  moreover have "1 / 2 ^ (k + 1) \<le> 1 / y"
    using hi y1 by (intro divide_left_mono) simp_all
  moreover have "(2::real) powi (binade x + 1) = 1 / 2 ^ k"
  proof -
    have "binade x + 1 = - ilog2 n" by (simp add: bx)
    then have "(2::real) powi (binade x + 1) = inverse (2 powi (ilog2 n))"
      by (simp only: power_int_minus)
    also have "(2::real) powi (ilog2 n) = 2 ^ k"
      using b(1) by (simp add: p2_nat k_def)
    finally show ?thesis by (simp add: inverse_eq_divide)
  qed
  moreover have "1 / y < 1 / 2 ^ k"
    using lo y1 by (intro divide_strict_left_mono) simp_all
  ultimately show ?thesis unfolding x by simp
qed

lemma rne_cases: "rne q = \<lfloor>q\<rfloor> \<or> rne q = \<lfloor>q\<rfloor> + 1"
  by (simp add: rne_def Let_def)

lemma rne_err: "\<bar>of_int (rne q) - q\<bar> \<le> 1 / 2"
proof -
  define d where "d = q - of_int \<lfloor>q\<rfloor>"
  have d: "0 \<le> d" "d < 1" unfolding d_def by linarith+
  consider "d < 1 / 2" | "1 / 2 < d" | "d = 1 / 2" by linarith
  then show ?thesis
  proof cases
    case 1
    then have "rne q = \<lfloor>q\<rfloor>" by (simp add: rne_def Let_def d_def)
    then show ?thesis using d 1 unfolding d_def by simp
  next
    case 2
    then have "rne q = \<lfloor>q\<rfloor> + 1" by (simp add: rne_def Let_def d_def)
    then show ?thesis using d 2 unfolding d_def by simp
  next
    case 3
    then have "rne q = \<lfloor>q\<rfloor> \<or> rne q = \<lfloor>q\<rfloor> + 1" by (simp add: rne_def Let_def d_def)
    then show ?thesis using 3 unfolding d_def by auto
  qed
qed

lemma rne_ge: "of_int k \<le> q \<Longrightarrow> k \<le> rne q"
proof -
  assume "of_int k \<le> q"
  then have "k \<le> \<lfloor>q\<rfloor>" by (simp add: le_floor_iff)
  then show ?thesis using rne_cases [of q] by linarith
qed

lemma rne_of_int [simp]: "rne (of_int k) = k"
  by (simp add: rne_def)

lemma ulp_pos: "0 < ulp x"
  by (simp add: ulp_def)

lemma rnd_err: "\<bar>rnd x - x\<bar> \<le> ulp x / 2"
proof (cases "x = 0")
  case True
  then show ?thesis using ulp_pos [of x] by (simp add: rnd_def)
next
  case False
  have "rnd x - x = (of_int (rne (x / ulp x)) - x / ulp x) * ulp x"
    using False ulp_pos [of x] by (simp add: rnd_def algebra_simps)
  then have "\<bar>rnd x - x\<bar> = \<bar>of_int (rne (x / ulp x)) - x / ulp x\<bar> * ulp x"
    using ulp_pos [of x] by (simp add: abs_mult)
  also have "\<dots> \<le> 1 / 2 * ulp x"
    using rne_err [of "x / ulp x"] ulp_pos [of x] by (intro mult_right_mono) simp_all
  finally show ?thesis by simp
qed

lemma ulp_le:
  assumes "x \<noteq> 0"
  shows "ulp x \<le> \<bar>x\<bar> / 2 ^ 52 + 2 powi (- 1074)"
proof (cases "binade \<bar>x\<bar> < - 1022")
  case True
  then have "ulp x = 2 powi (- 1074)" by (simp add: ulp_def max_def)
  then show ?thesis by simp
next
  case False
  from assms have pos: "0 < \<bar>x\<bar>" by simp
  from False have "ulp x = 2 powi (binade \<bar>x\<bar> - 52)" by (simp add: ulp_def max_def)
  also have "\<dots> = 2 powi (binade \<bar>x\<bar>) / 2 ^ 52"
    by (simp add: power_int_diff)
  also have "\<dots> \<le> \<bar>x\<bar> / 2 ^ 52"
    using binade_bounds [OF pos] by (simp add: divide_right_mono)
  finally show ?thesis by (simp add: add_increasing2)
qed

lemma rnd_err_rel: "\<bar>rnd x - x\<bar> \<le> \<bar>x\<bar> / 2 ^ 53 + 2 powi (- 1075)"
proof (cases "x = 0")
  case True
  then show ?thesis by (simp add: rnd_def)
next
  case False
  have "2 powi (- 1074) / 2 = (2::real) powi (- 1075)"
    using p2_pred [of "- 1074"] by simp
  then show ?thesis
    using rnd_err [of x] ulp_le [OF False] by (simp add: field_simps)
qed

lemma rnd_nonneg: "0 \<le> x \<Longrightarrow> 0 \<le> rnd x"
proof (cases "x = 0")
  case True
  then show ?thesis by (simp add: rnd_def)
next
  case False
  assume "0 \<le> x"
  then have "of_int 0 \<le> x / ulp x" using ulp_pos [of x] by simp
  then have "0 \<le> rne (x / ulp x)" by (rule rne_ge)
  then show ?thesis using False ulp_pos [of x] by (simp add: rnd_def)
qed

lemma int_div_ulp:
  assumes "0 < x" and "binade x \<le> 52" and "- 1022 \<le> binade x"
  shows "\<exists>m::int. 1 / ulp x = of_int m \<and> 0 < m"
proof -
  have "ulp x = 2 powi (binade x - 52)"
    using assms by (simp add: ulp_def max_def)
  then have "1 / ulp x = inverse (2 powi (binade x - 52))"
    by (simp add: inverse_eq_divide)
  also have "\<dots> = 2 powi (- (binade x - 52))"
    by (simp only: power_int_minus)
  also have "- (binade x - 52) = 52 - binade x" by simp
  finally have "1 / ulp x = 2 powi (52 - binade x)" .
  also have "\<dots> = 2 ^ nat (52 - binade x)"
    using assms(2) by (simp add: power_int_def)
  also have "\<dots> = of_int (2 ^ nat (52 - binade x))" by simp
  finally show ?thesis by (intro exI [of _ "2 ^ nat (52 - binade x)"]) simp
qed

lemma rnd_ge_int:
  assumes k: "0 < k" "of_int k \<le> (2::real) ^ 53" and x: "of_int k \<le> x"
  shows "of_int k \<le> rnd x"
proof -
  have pos: "0 < x" using k x by linarith
  then have x0: "x \<noteq> 0" and ax: "\<bar>x\<bar> = x" by simp_all
  have x1: "1 \<le> x" using k x by linarith
  have b0: "0 \<le> binade x"
  proof (rule ccontr)
    assume "\<not> 0 \<le> binade x"
    then have "binade x + 1 \<le> 0" by simp
    then have "(2::real) powi (binade x + 1) \<le> 2 powi 0"
      by (intro power_int_increasing) simp_all
    then show False using binade_bounds [OF pos] x1 by simp
  qed
  have r: "rnd x = of_int (rne (x / ulp x)) * ulp x"
    using x0 by (simp add: rnd_def)
  show ?thesis
  proof (cases "binade x \<le> 52")
    case True
    from int_div_ulp [OF pos True] b0 obtain m :: int where m: "1 / ulp x = of_int m" by auto
    have "of_int k / ulp x = of_int k * (1 / ulp x)" by simp
    also have "\<dots> = of_int (k * m)" by (simp only: m of_int_mult)
    finally have "of_int (k * m) = of_int k / ulp x" by simp
    also have "\<dots> \<le> x / ulp x" using x ulp_pos [of x] by (simp add: divide_right_mono)
    finally have "k * m \<le> rne (x / ulp x)" by (rule rne_ge)
    then have "(of_int (k * m) :: real) \<le> of_int (rne (x / ulp x))"
      by (simp only: of_int_le_iff)
    then have le: "of_int (k * m) * ulp x \<le> of_int (rne (x / ulp x)) * ulp x"
      by (rule mult_right_mono) (simp add: ulp_pos less_imp_le)
    have "of_int m * ulp x = 1 / ulp x * ulp x" by (simp only: m)
    also have "\<dots> = 1" using ulp_pos [of x] by simp
    finally have one: "of_int m * ulp x = 1" .
    have "of_int k = of_int k * (of_int m * ulp x)" by (simp only: one mult_1_right)
    also have "\<dots> = of_int (k * m) * ulp x" by (simp only: of_int_mult mult.assoc)
    also note le
    finally show ?thesis by (simp only: r)
  next
    case False
    then have u: "ulp x = 2 powi (binade x - 52)" by (simp add: ulp_def max_def ax)
    have "of_int (2 ^ 52) = 2 powi (binade x) / ulp x"
      unfolding u by (simp add: power_int_diff)
    also have "\<dots> \<le> x / ulp x"
      using binade_bounds [OF pos] ulp_pos [of x] by (simp add: divide_right_mono)
    finally have "2 ^ 52 \<le> rne (x / ulp x)" by (rule rne_ge)
    then have "(of_int (2 ^ 52) :: real) \<le> of_int (rne (x / ulp x))"
      by (simp only: of_int_le_iff)
    then have le: "of_int (2 ^ 52) * ulp x \<le> of_int (rne (x / ulp x)) * ulp x"
      by (rule mult_right_mono) (simp add: ulp_pos less_imp_le)
    have eq: "of_int (2 ^ 52) * ulp x = 2 powi (binade x)"
      unfolding u by (simp add: power_int_diff)
    have "of_int k \<le> (2::real) powi 53" using k(2) by simp
    also have "(2::real) powi 53 \<le> 2 powi (binade x)"
      using False by (intro power_int_increasing) simp_all
    also have "\<dots> = of_int (2 ^ 52) * ulp x" by (simp only: eq)
    also note le
    finally show ?thesis by (simp only: r)
  qed
qed

section \<open>Properties of the scheduler\<close>

lemma trunc_bounds:
  "0 \<le> x \<Longrightarrow> of_int (trunc x) \<le> x \<and> x < of_int (trunc x) + 1"
  "x < 0 \<Longrightarrow> x \<le> of_int (trunc x) \<and> of_int (trunc x) < x + 1"
  unfolding trunc_def by (simp_all, linarith+)

lemma js_rem_abs_less:
  assumes "0 < b"
  shows "\<bar>js_rem a b\<bar> < b"
proof -
  let ?q = "a / b"
  have eq: "js_rem a b = b * (?q - of_int (trunc ?q))"
    using assms by (simp add: js_rem_def algebra_simps)
  have "\<bar>?q - of_int (trunc ?q)\<bar> < 1"
  proof (cases "0 \<le> ?q")
    case True
    then show ?thesis using trunc_bounds(1) [of ?q] by linarith
  next
    case False
    then show ?thesis using trunc_bounds(2) [of ?q] by linarith
  qed
  then have "b * \<bar>?q - of_int (trunc ?q)\<bar> < b * 1"
    using assms by (simp only: mult_less_cancel_left_pos)
  then show ?thesis
    using assms by (simp add: eq abs_mult)
qed

lemma intervalSeconds_pos:
  assumes "\<forall>c. cfg = Some c \<longrightarrow> 0 \<le> c"
  shows "0 < intervalSeconds cfg"
  using assms by (cases cfg) (auto simp: intervalSeconds_def)

lemma eta_small: "(2::real) powi (- 1075) \<le> 1 / 2 ^ 53" "0 < (2::real) powi (- 1075)"
proof -
  have "(2::real) powi (- 1075) \<le> 2 powi (- 53)"
    by (intro power_int_increasing) simp_all
  also have "(2::real) powi (- 53) = 1 / 2 ^ 53"
    by (simp add: power_int_minus inverse_eq_divide)
  finally show "(2::real) powi (- 1075) \<le> 1 / 2 ^ 53" .
  show "0 < (2::real) powi (- 1075)" by simp
qed

lemma delay_ge_offset:
  assumes "0 < I"
  shows "5000 \<le> scheduleConfigurationCheck I now_ms"
proof -
  define secs where "secs = rnd (5 + rnd (of_int now_ms / 1000))"
  define md where "md = js_rem secs I"
  define dsecs where "dsecs = rnd (rnd (I - md) + 5)"
  have "\<bar>md\<bar> < I" unfolding md_def using assms by (rule js_rem_abs_less)
  then have "0 \<le> I - md" by simp
  then have "0 \<le> rnd (I - md)" by (rule rnd_nonneg)
  then have "of_int 5 \<le> rnd (I - md) + 5" by simp
  then have "of_int 5 \<le> dsecs"
    unfolding dsecs_def by (intro rnd_ge_int) simp_all
  then have "of_int 5000 \<le> dsecs * 1000" by simp
  then have "of_int 5000 \<le> rnd (dsecs * 1000)"
    by (intro rnd_ge_int) simp_all
  then show ?thesis
    by (simp add: scheduleConfigurationCheck_def Let_def secs_def md_def dsecs_def)
qed

lemma div_le_self_53: "0 \<le> x \<Longrightarrow> x / 2 ^ 53 \<le> (x::real)"
  by (simp add: field_simps)

lemma next_fire_near_multiple:
  assumes "0 < I"
  shows "\<bar>(of_int now_ms + scheduleConfigurationCheck I now_ms) / 1000
          - of_int (trunc (rnd (5 + rnd (of_int now_ms / 1000)) / I) + 1) * I\<bar>
         \<le> (\<bar>of_int now_ms\<bar> / 1000 + I + 5) / 2 ^ 49"
proof -
  define a :: real where "a = of_int now_ms / 1000"
  define r1 where "r1 = rnd a"
  define secs where "secs = rnd (5 + r1)"
  define md where "md = js_rem secs I"
  define t where "t = rnd (I - md)"
  define dsecs where "dsecs = rnd (t + 5)"
  define delay where "delay = rnd (dsecs * 1000)"
  define ds where "ds = delay / 1000"
  define eta :: real where "eta = 2 powi (- 1075)"
  define A :: real where "A = \<bar>a\<bar> / 2 ^ 53"
  define B :: real where "B = I / 2 ^ 53"
  define C :: real where "C = 1 / 2 ^ 53"
  define Q :: real where "Q = \<bar>dsecs\<bar> / 2 ^ 53"
  have d: "scheduleConfigurationCheck I now_ms = delay"
    by (simp add: scheduleConfigurationCheck_def Let_def delay_def dsecs_def t_def md_def
        secs_def r1_def a_def)
  have eta: "eta \<le> C" "0 < eta" unfolding eta_def C_def by (rule eta_small)+
  have A: "0 \<le> A" "A \<le> \<bar>a\<bar>" unfolding A_def by (simp_all add: div_le_self_53)
  have B: "0 < B" "B \<le> I" unfolding B_def using assms by (simp_all add: div_le_self_53)
  have C: "0 < C" "C \<le> 1" unfolding C_def by simp_all
  have md: "\<bar>md\<bar> < I" unfolding md_def using assms by (rule js_rem_abs_less)
  have M: "of_int (trunc (secs / I) + 1) * I = secs - md + I"
    using assms by (simp add: md_def js_rem_def algebra_simps)
  have e1: "\<bar>r1 - a\<bar> \<le> A + eta"
    unfolding r1_def eta_def A_def by (rule rnd_err_rel)
  have e2: "\<bar>secs - (5 + r1)\<bar> \<le> \<bar>5 + r1\<bar> / 2 ^ 53 + eta"
    unfolding secs_def eta_def by (rule rnd_err_rel)
  have e3: "\<bar>t - (I - md)\<bar> \<le> \<bar>I - md\<bar> / 2 ^ 53 + eta"
    unfolding t_def eta_def by (rule rnd_err_rel)
  have e4: "\<bar>dsecs - (t + 5)\<bar> \<le> \<bar>t + 5\<bar> / 2 ^ 53 + eta"
    unfolding dsecs_def eta_def by (rule rnd_err_rel)
  have e5: "\<bar>delay - dsecs * 1000\<bar> \<le> \<bar>dsecs * 1000\<bar> / 2 ^ 53 + eta"
    unfolding delay_def eta_def by (rule rnd_err_rel)
  have c2: "\<bar>5 + r1\<bar> \<le> 2 * \<bar>a\<bar> + 6" using e1 A eta C by linarith
  have c3: "\<bar>I - md\<bar> \<le> 2 * I" using md by linarith
  have "\<bar>5 + r1\<bar> / 2 ^ 53 \<le> (2 * \<bar>a\<bar> + 6) / 2 ^ 53"
    using c2 by (rule divide_right_mono) simp
  also have "\<dots> = 2 * A + 6 * C"
    by (simp add: A_def C_def add_divide_distrib)
  finally have s2: "\<bar>secs - (5 + r1)\<bar> \<le> 2 * A + 6 * C + eta" using e2 by linarith
  have "\<bar>I - md\<bar> / 2 ^ 53 \<le> (2 * I) / 2 ^ 53"
    using c3 by (rule divide_right_mono) simp
  also have "\<dots> = 2 * B" by (simp add: B_def)
  finally have s3: "\<bar>t - (I - md)\<bar> \<le> 2 * B + eta" using e3 by linarith
  have c4: "\<bar>t + 5\<bar> \<le> 4 * I + 6" using s3 B eta C md by linarith
  have "\<bar>t + 5\<bar> / 2 ^ 53 \<le> (4 * I + 6) / 2 ^ 53"
    using c4 by (rule divide_right_mono) simp
  also have "\<dots> = 4 * B + 6 * C"
    by (simp add: B_def C_def add_divide_distrib)
  finally have s4: "\<bar>dsecs - (t + 5)\<bar> \<le> 4 * B + 6 * C + eta" using e4 by linarith
  have c5: "\<bar>dsecs\<bar> \<le> 8 * I + 13" using s4 c4 B eta C by linarith
  have "\<bar>dsecs\<bar> / 2 ^ 53 \<le> (8 * I + 13) / 2 ^ 53"
    using c5 by (rule divide_right_mono) simp
  also have "\<dots> = 8 * B + 13 * C"
    by (simp add: B_def C_def add_divide_distrib)
  finally have "\<bar>dsecs\<bar> / 2 ^ 53 \<le> 8 * B + 13 * C" .
  then have q5: "Q \<le> 8 * B + 13 * C" by (simp only: Q_def)
  have "\<bar>delay - dsecs * 1000\<bar> = 1000 * \<bar>ds - dsecs\<bar>"
    by (simp add: ds_def abs_if)
  moreover have "\<bar>dsecs * 1000\<bar> / 2 ^ 53 = 1000 * Q"
    by (simp add: abs_mult Q_def)
  ultimately have "1000 * \<bar>ds - dsecs\<bar> \<le> 1000 * Q + eta"
    using e5 by (simp only:)
  then have "\<bar>ds - dsecs\<bar> \<le> Q + eta / 1000"
    by simp
  moreover have "eta / 1000 \<le> eta"
    using eta(2) by simp
  ultimately have s5: "\<bar>ds - dsecs\<bar> \<le> 8 * B + 13 * C + eta"
    using q5 by linarith
  have "a + ds - (secs - md + I)
        = (t - (I - md)) + (dsecs - (t + 5)) + (ds - dsecs) - (r1 - a) - (secs - (5 + r1))"
    by simp
  then have "\<bar>a + ds - (secs - md + I)\<bar>
        \<le> \<bar>t - (I - md)\<bar> + \<bar>dsecs - (t + 5)\<bar> + \<bar>ds - dsecs\<bar> + \<bar>r1 - a\<bar>
            + \<bar>secs - (5 + r1)\<bar>"
    by linarith
  also have "\<dots> \<le> 16 * A + 16 * B + 80 * C"
    using e1 s2 s3 s4 s5 eta A B C by linarith
  also have "\<dots> = (\<bar>a\<bar> + I + 5) / 2 ^ 49"
    by (simp add: A_def B_def C_def add_divide_distrib)
  finally have "\<bar>a + ds - (secs - md + I)\<bar> \<le> (\<bar>a\<bar> + I + 5) / 2 ^ 49" .
  moreover have "\<bar>a\<bar> = \<bar>of_int now_ms\<bar> / 1000" by (simp add: a_def)
  moreover have "(of_int now_ms + delay) / 1000 = a + ds"
    by (simp add: a_def ds_def add_divide_distrib)
  ultimately have "\<bar>(of_int now_ms + delay) / 1000 - of_int (trunc (secs / I) + 1) * I\<bar>
      \<le> (\<bar>of_int now_ms\<bar> / 1000 + I + 5) / 2 ^ 49"
    by (simp only: M)
  then show ?thesis
    by (simp only: d a_def secs_def r1_def)
qed

text \<open>
  C4 (as amended). For every configured interval that is not negative (absent and 0
  mean 60 seconds; below \<open>10^300\<close>, where no operation overflows) and every current
  time that a Date can hold, the next fire time, now plus the computed delay, is at
  least 5 seconds later than the current time, hence strictly in the future, and it
  lies next to a whole multiple of the interval since the epoch: the distance is at
  most \<open>(|now| + interval + 5) / 2^49\<close> seconds, the rounding error of the five
  operations on doubles. So the fire times are lined up on the multiples of the
  interval; the offset moves none of them.
\<close>

theorem next_fire_future_aligned:
  assumes "\<forall>c. cfg = Some c \<longrightarrow> 0 \<le> c \<and> c \<le> 10 ^ 300"
    and "\<bar>now_ms\<bar> \<le> 8640000000000000"
  shows "of_int now_ms / 1000 < next_fire cfg now_ms
       \<and> of_int now_ms / 1000 + 5 \<le> next_fire cfg now_ms
       \<and> (\<exists>k::int. \<bar>next_fire cfg now_ms - of_int k * intervalSeconds cfg\<bar>
             \<le> (\<bar>of_int now_ms\<bar> / 1000 + intervalSeconds cfg + 5) / 2 ^ 49)"
proof -
  have "\<forall>c. cfg = Some c \<longrightarrow> 0 \<le> c"
    using assms(1) by blast
  then have pos: "0 < intervalSeconds cfg"
    by (rule intervalSeconds_pos)
  have "5000 \<le> scheduleConfigurationCheck (intervalSeconds cfg) now_ms"
    using pos by (rule delay_ge_offset)
  then have "of_int now_ms / 1000 + 5 \<le> next_fire cfg now_ms"
    by (simp add: next_fire_def startPeriodicUpdates_def add_divide_distrib)
  moreover have "\<exists>k::int. \<bar>next_fire cfg now_ms - of_int k * intervalSeconds cfg\<bar>
             \<le> (\<bar>of_int now_ms\<bar> / 1000 + intervalSeconds cfg + 5) / 2 ^ 49"
    unfolding next_fire_def startPeriodicUpdates_def
    using next_fire_near_multiple [OF pos, of now_ms] by blast
  ultimately show ?thesis by simp
qed

text \<open>
  With the default interval and the clock at 1793683200123 ms the delay is
  \<open>31392792625 / 524288 = 59877.00009346008\<close> ms: the timer is asked for a time 93
  nanoseconds after the multiple 1793683260 of 60 seconds.
\<close>

theorem next_fire_future_aligned_witness:
  "scheduleConfigurationCheck 60 1793683200123 = 31392792625 / 524288
   \<and> (of_int 1793683200123 :: real) / 1000 < next_fire (Some 60) 1793683200123
   \<and> (of_int 1793683200123 :: real) / 1000 + 5 \<le> next_fire (Some 60) 1793683200123
   \<and> (\<exists>k::int. \<bar>next_fire (Some 60) 1793683200123 - of_int k * intervalSeconds (Some 60)\<bar>
         \<le> (\<bar>of_int 1793683200123\<bar> / 1000 + intervalSeconds (Some 60) + 5) / 2 ^ 49)"
proof -
  have h: "\<forall>c. Some (60::real) = Some c \<longrightarrow> 0 \<le> c \<and> c \<le> 10 ^ 300" by simp
  have n: "\<bar>1793683200123 :: int\<bar> \<le> 8640000000000000" by simp
  have v: "scheduleConfigurationCheck 60 1793683200123 = 31392792625 / 524288"
    by code_simp
  show ?thesis using next_fire_future_aligned [OF h n] v by (rule_tac conjI)
qed

text \<open>
  C4 (as stated) fails: with the default interval of 60 seconds and the clock at the
  epoch, \<open>secs = 5\<close>, \<open>mod = 5\<close>, \<open>dsecs = 60 - 5 + 5 = 60\<close>, all without rounding; the
  timer fires at second 60, which is congruent to 0 and not to the offset 5 modulo 60.
\<close>

theorem next_fire_offset_counterexample:
  "next_fire (Some 60) 0 = 60 \<and> \<not> congruent_mod (next_fire (Some 60) 0) 5 60"
  by code_simp

text \<open>A second clock value, where the rounding shortens the delay below 39544 ms.\<close>

lemma scheduleConfigurationCheck_example:
  "scheduleConfigurationCheck 60 1700000000456 = 20732444625 / 524288"
  by code_simp

section \<open>Properties of the network usage collector\<close>

text \<open>
  C7. The claim asks for a sample exactly when the name of the statistic is a \<open>z\<close>, a
  decimal zone id, an underscore and a link name. The name \<open>xz3_net1\<close> is not of that
  form, it starts with \<open>x\<close>. \<open>zoneRE\<close> is written without the anchor \<open>^\<close> and \<open>match\<close>
  searches the whole name, so the code accepts the name at its second character and
  records a sample for it, under zone 3 and link \<open>net1\<close>.
\<close>

theorem unanchored_name_is_sampled:
  "\<not> zone_link_name ''xz3_net1''
   \<and> zoneRE ''xz3_net1'' = Some (''3'', ''net1'')
   \<and> sample_at (network (snd (updateNetworkUsage
          (host [stat ''xz3_net1''] [] all_running config_of) Watcher))) ''def'' ''net1''
       = Some (sample_of 1000000 (stat ''xz3_net1''))"
  by code_simp

text \<open>
  C8. The loop calls \<open>zutil.getZoneById(Number(zoneid)).name\<close> without a \<open>try\<close>. With
  the statistics \<open>z7_net0\<close> and \<open>z3_net0\<close>, zone 7 destroyed and zone 3 alive, the loop
  visits \<open>z3_net0\<close> first and then raises at \<open>z7_net0\<close>: the exception leaves the
  stage, nothing is stored, and the link of zone 3 is lost with it. The sibling
  \<open>onVm\<close> does catch the error of a destroyed zone.
\<close>

theorem getZoneById_failure_escapes:
  "zone_by_id 7 = Inl (Error ''getzonenamebyid: Invalid argument'')
   \<and> zone_by_id 3 = Inr ''def''
   \<and> updateNetworkUsage (host [stat ''z7_net0'', stat ''z3_net0''] [] all_running config_of)
        Watcher
       = (Thrown (Error ''getzonenamebyid: Invalid argument''), Watcher)
   \<and> fst (gatherStateAllZones
            (host [stat ''z7_net0'', stat ''z3_net0''] [zone_of ''def''] all_running config_of)
            Watcher)
       = [Uncaught (Error ''getzonenamebyid: Invalid argument'')]"
  by code_simp

text \<open>
  C10. The network map is replaced only when the update completes, and then by the
  map that the scan built from the empty object. When the update ends in any other
  way, by the error of the boot-time read or by an exception of the scan, the
  watcher is left as it was, the stored network map included.
\<close>

theorem updateNetworkUsage_atomic:
  assumes "updateNetworkUsage e w = (out, w')"
  shows "(out \<noteq> Completed \<longrightarrow> w' = w)
       \<and> (out = Completed \<longrightarrow>
            (\<exists>b usage. bootTime e = Inr b
               \<and> scanLinks (getZoneById e) b (rev (kstat_link e)) [] = Inr usage
               \<and> w' = w\<lparr>network := usage\<rparr>))"
  using assms unfolding updateNetworkUsage_def by (auto split: sum.splits)

theorem updateNetworkUsage_atomic_witness:
  "fst (updateNetworkUsage (no_boot_time (host [stat ''z3_net0''] [] all_running config_of))
          (Watcher\<lparr>network := [(''abc'', [(''net0'', sample_of 1000000 (stat ''z1_net0''))])]\<rparr>))
     = Failed (Error ''kstat: boot_time is not available'')
   \<and> snd (updateNetworkUsage (no_boot_time (host [stat ''z3_net0''] [] all_running config_of))
          (Watcher\<lparr>network := [(''abc'', [(''net0'', sample_of 1000000 (stat ''z1_net0''))])]\<rparr>))
     = Watcher\<lparr>network := [(''abc'', [(''net0'', sample_of 1000000 (stat ''z1_net0''))])]\<rparr>"
proof -
  let ?e = "no_boot_time (host [stat ''z3_net0''] [] all_running config_of)"
  let ?w = "Watcher\<lparr>network := [(''abc'', [(''net0'', sample_of 1000000 (stat ''z1_net0''))])]\<rparr>"
  have out: "fst (updateNetworkUsage ?e ?w) = Failed (Error ''kstat: boot_time is not available'')"
    by code_simp
  have "updateNetworkUsage ?e ?w = (fst (updateNetworkUsage ?e ?w), snd (updateNetworkUsage ?e ?w))"
    by simp
  from updateNetworkUsage_atomic [OF this] out
  have "snd (updateNetworkUsage ?e ?w) = ?w" by simp
  with out show ?thesis by simp
qed

section \<open>Properties of the disk usage collector\<close>

lemma digit_char_props:
  assumes "k < 10"
  shows "is_digit (digit_char k)" and "digit_val (digit_char k) = k"
    and "\<not> is_space (digit_char k)" and "digit_char k \<noteq> CHR ''-''" and "digit_char k \<noteq> CHR ''+''"
proof -
  from assms have "k \<in> {0, 1, 2, 3, 4, 5, 6, 7, 8, 9}" by auto
  then show "is_digit (digit_char k)" and "digit_val (digit_char k) = k"
    and "\<not> is_space (digit_char k)" and "digit_char k \<noteq> CHR ''-''" and "digit_char k \<noteq> CHR ''+''"
    by (auto simp: digit_char_def is_digit_def digit_val_def is_space_def)
qed

lemma Number_digits_snoc: "Number_digits (ds @ [c]) = 10 * Number_digits ds + digit_val c"
  by (simp add: Number_digits_def)

lemma digits_of_props:
  "digits_of n \<noteq> [] \<and> list_all is_digit (digits_of n) \<and> Number_digits (digits_of n) = n"
proof (induction n rule: digits_of.induct)
  case (1 n)
  show ?case
  proof (cases "n < 10")
    case True
    then show ?thesis
      using digit_char_props [of n] by (simp add: digits_of.simps [of n] Number_digits_def)
  next
    case False
    have "n mod 10 < 10" by simp
    with 1 False show ?thesis
      using digit_char_props [of "n mod 10"]
      by (subst digits_of.simps, subst (2) digits_of.simps, subst (3) digits_of.simps)
         (simp add: Number_digits_snoc)
  qed
qed

lemma parseInt_digits:
  assumes "ds \<noteq> []" and "list_all is_digit ds"
  shows "parseInt (Str ds) = Num (int (Number_digits ds))"
proof -
  obtain c t where ds: "ds = c # t" using assms(1) by (cases ds) auto
  with assms(2) have c: "is_digit c" by simp
  then have "\<not> is_space c" "c \<noteq> CHR ''-''" "c \<noteq> CHR ''+''"
    by (auto simp: is_digit_def is_space_def)
  moreover have tw: "takeWhile is_digit (c # t) = c # t"
    using assms(2) ds by (simp add: list_all_iff)
  ultimately show ?thesis
    unfolding ds by (simp add: parseInt_def ToString_def Let_def tw del: takeWhile.simps)
qed

lemma parseInt_Num: "parseInt (Num n) = Num n"
proof (cases "n < 0")
  case False
  have "parseInt (Num n) = parseInt (Str (digits_of (nat n)))"
    using False by (simp add: parseInt_def ToString_def)
  also have "\<dots> = Num (int (Number_digits (digits_of (nat n))))"
    using digits_of_props [of "nat n"] by (intro parseInt_digits) simp_all
  finally show ?thesis using False digits_of_props [of "nat n"] by simp
next
  case True
  let ?ds = "digits_of (nat (- n))"
  have p: "?ds \<noteq> []" "list_all is_digit ?ds" "Number_digits ?ds = nat (- n)"
    using digits_of_props [of "nat (- n)"] by simp_all
  have sp: "\<not> is_space CHR ''-''" by (simp add: is_space_def)
  have tw: "takeWhile is_digit ?ds = ?ds" using p(2) by (simp add: list_all_iff)
  show ?thesis
    using True p(1,3) sp by (simp add: parseInt_def ToString_def Let_def tw)
qed

lemma parseInt_NaN: "parseInt NaN = NaN"
  by (simp add: parseInt_def ToString_def is_space_def is_digit_def)

lemma parseInt_result: "(\<exists>n. parseInt v = Num n) \<or> parseInt v = NaN"
  by (simp add: parseInt_def Let_def)

lemma parseInt_idem: "parseInt (parseInt v) = parseInt v"
  using parseInt_result [of v] by (auto simp: parseInt_Num parseInt_NaN)

lemma parseInt_not_sentinel: "parseInt v \<noteq> Str s"
  using parseInt_result [of v] by auto

lemma coerce_idem: "coerce (coerce ps) = coerce ps"
  by (induction ps) (auto simp: coerce_def parseInt_idem parseInt_not_sentinel)

lemma map_of_map_keyed:
  "map_of (map (\<lambda>(k, v). (k, f k v)) ps) k = map_option (f k) (map_of ps k)"
  by (induction ps) auto

lemma map_of_coerce:
  "map_of (coerce ps) k =
   map_option (\<lambda>v. if v \<noteq> Str ''-'' \<and> k \<in> set numKeys then parseInt v else v) (map_of ps k)"
  unfolding coerce_def
  by (rule map_of_map_keyed
      [where f = "\<lambda>k v. if v \<noteq> Str ''-'' \<and> k \<in> set numKeys then parseInt v else v"])

lemma map_fst_coerce: "map fst (coerce ps) = map fst ps"
  by (induction ps) (auto simp: coerce_def)

lemma map_fst_update:
  "map_of al k = Some x \<Longrightarrow> map fst (AList.update k y al) = map fst al"
  by (induction al) (auto split: if_splits)

lemma same_listing_refl: "same_listing ds0 ds0"
  by (simp add: same_listing_def)

lemma same_listing_keys:
  assumes "same_listing ds0 ds"
  shows "map_of ds d = None \<longleftrightarrow> d \<notin> fst ` set ds0"
proof -
  have "map_of ds d = None \<longleftrightarrow> d \<notin> set (map fst ds)"
    by (simp add: map_of_eq_None_iff)
  moreover have "map fst ds = map fst ds0"
    using assms by (simp add: same_listing_def)
  ultimately show ?thesis by simp
qed

lemma same_listing_value:
  assumes "same_listing ds0 ds" and "map_of ds d = Some ps"
  shows "map_option coerce (map_of ds0 d) = Some (coerce ps)"
  using assms unfolding same_listing_def by (metis option.simps(9))

lemma same_listing_update:
  assumes "same_listing ds0 ds" and "map_of ds d = Some ps"
  shows "same_listing ds0 (AList.update d (coerce ps) ds)"
proof -
  have "map fst (AList.update d (coerce ps) ds) = map fst ds0"
    using assms by (simp add: map_fst_update same_listing_def)
  moreover have "map_option coerce (map_of (AList.update d (coerce ps) ds) d') =
                 map_option coerce (map_of ds0 d')" for d'
  proof (cases "d' = d")
    case True
    have "map_option coerce (map_of ds0 d) = Some (coerce ps)"
      using assms by (rule same_listing_value)
    with True show ?thesis
      by (auto simp: update_conv' coerce_idem)
  next
    case False
    then show ?thesis using assms(1) by (simp add: update_conv' same_listing_def)
  qed
  ultimately show ?thesis by (simp add: same_listing_def)
qed

lemma dataset_at_update:
  "dataset_at (AList.update u (AList.update d ps (case map_of dk u of None \<Rightarrow> [] | Some m \<Rightarrow> m)) dk) u' d'
   = (if u' = u \<and> d' = d then Some ps else dataset_at dk u' d')"
  by (cases "map_of dk u") (auto simp: dataset_at_def update_conv')

lemma add_effect:
  assumes "same_listing ds0 (fst st)"
  shows "same_listing ds0 (fst (add u d st))"
    and "dataset_at (snd (add u d st)) u' d' =
           (if u' = u \<and> d' = d \<and> d \<in> fst ` set ds0
            then map_option coerce (map_of ds0 d) else dataset_at (snd st) u' d')"
proof -
  show "same_listing ds0 (fst (add u d st))"
  proof (cases "map_of (fst st) d")
    case None
    then show ?thesis using assms by (simp add: add_def)
  next
    case (Some ps)
    then show ?thesis
      using same_listing_update [OF assms Some] by (simp add: add_def Let_def)
  qed
  show "dataset_at (snd (add u d st)) u' d' =
           (if u' = u \<and> d' = d \<and> d \<in> fst ` set ds0
            then map_option coerce (map_of ds0 d) else dataset_at (snd st) u' d')"
  proof (cases "map_of (fst st) d")
    case None
    then have "d \<notin> fst ` set ds0" using same_listing_keys [OF assms] by simp
    with None show ?thesis by (simp add: add_def)
  next
    case (Some ps)
    then have "d \<in> fst ` set ds0" using same_listing_keys [OF assms, of d] by auto
    moreover have "map_option coerce (map_of ds0 d) = Some (coerce ps)"
      using assms Some by (rule same_listing_value)
    ultimately show ?thesis
      using Some by (auto simp: add_def Let_def dataset_at_update)
  qed
qed

lemma for_datasets_effect:
  assumes "config vm = Some c"
  shows "same_listing ds0 (fst st) \<Longrightarrow>
     \<exists>st'. for_datasets vm u names st = (None, st') \<and> same_listing ds0 (fst st')
       \<and> (\<forall>u' d'. dataset_at (snd st') u' d' =
            (if u' = u \<and> d' \<in> set names \<and> attaches vm c d' \<and> d' \<in> fst ` set ds0
             then map_option coerce (map_of ds0 d') else dataset_at (snd st) u' d'))"
proof (induction names arbitrary: st)
  case Nil
  then show ?case by simp
next
  case (Cons d rest)
  define st1 where "st1 = (if startsWith d (zonepath_prefix c) then add u d st else st)"
  define st2 where "st2 = (if startsWith d (cores_prefix vm c) then add u d st1 else st1)"
  have s1: "same_listing ds0 (fst st1)"
    using Cons.prems add_effect(1) by (simp add: st1_def)
  then have s2: "same_listing ds0 (fst st2)"
    using add_effect(1) by (simp add: st2_def)
  have d1: "dataset_at (snd st1) u' d' =
              (if u' = u \<and> d' = d \<and> startsWith d (zonepath_prefix c) \<and> d \<in> fst ` set ds0
               then map_option coerce (map_of ds0 d) else dataset_at (snd st) u' d')" for u' d'
    using add_effect(2) [OF Cons.prems, of u d u' d'] by (auto simp: st1_def split: if_splits)
  have d2: "dataset_at (snd st2) u' d' =
              (if u' = u \<and> d' = d \<and> attaches vm c d \<and> d \<in> fst ` set ds0
               then map_option coerce (map_of ds0 d) else dataset_at (snd st) u' d')" for u' d'
  proof (cases "startsWith d (cores_prefix vm c)")
    case True
    then have "st2 = add u d st1" by (simp add: st2_def)
    then show ?thesis
      using add_effect(2) [OF s1, of u d u' d'] d1 [of u' d'] True
      by (auto simp: attaches_def split: if_splits)
  next
    case False
    then have "st2 = st1" by (simp add: st2_def)
    then show ?thesis using d1 [of u' d'] False by (auto simp: attaches_def split: if_splits)
  qed
  from Cons.IH [OF s2] obtain st' where
    run: "for_datasets vm u rest st2 = (None, st')" and s': "same_listing ds0 (fst st')"
    and d': "\<And>u' d'. dataset_at (snd st') u' d' =
            (if u' = u \<and> d' \<in> set rest \<and> attaches vm c d' \<and> d' \<in> fst ` set ds0
             then map_option coerce (map_of ds0 d') else dataset_at (snd st2) u' d')"
    by blast
  have "for_datasets vm u (d # rest) st = for_datasets vm u rest st2"
    using assms by (simp add: Let_def st1_def st2_def)
  with run have "for_datasets vm u (d # rest) st = (None, st')"
    by simp
  moreover have "dataset_at (snd st') u' d' =
            (if u' = u \<and> d' \<in> set (d # rest) \<and> attaches vm c d' \<and> d' \<in> fst ` set ds0
             then map_option coerce (map_of ds0 d') else dataset_at (snd st) u' d')" for u' d'
    unfolding d' d2 by auto
  ultimately show ?case using s' by blast
qed

lemma for_datasets_no_config:
  assumes "config vm = None" and "for_datasets vm u names st = (None, st')"
  shows "names = [] \<and> st' = st"
  using assms by (cases names) auto

lemma dataset_at_ensure:
  "dataset_at (if map_of dk u = None then AList.update u [] dk else dk) u' d' = dataset_at dk u' d'"
  by (auto simp: dataset_at_def update_conv')

lemma disk_vm_effect:
  assumes run: "disk_vm registry u st = (None, st')" and same: "same_listing ds0 (fst st)"
  shows "same_listing ds0 (fst st') \<and>
     (\<forall>u' d'. dataset_at (snd st') u' d' =
        (if u' = u \<and> d' \<in> fst ` set ds0
            \<and> (\<exists>vm c. map_of registry u = Some vm \<and> config vm = Some c \<and> attaches vm c d')
         then map_option coerce (map_of ds0 d') else dataset_at (snd st) u' d'))"
proof -
  from run obtain vm where vm: "map_of registry u = Some vm"
    by (auto simp: disk_vm_def split: option.splits)
  define st0 where "st0 = (fst st, if map_of (snd st) u = None then AList.update u [] (snd st) else snd st)"
  have names: "map fst (fst st) = map fst ds0"
    using same by (simp add: same_listing_def)
  have run0: "for_datasets vm u (map fst ds0) st0 = (None, st')"
    using run vm names by (simp add: disk_vm_def st0_def)
  have same0: "same_listing ds0 (fst st0)" using same by (simp add: st0_def)
  have at0: "dataset_at (snd st0) u' d' = dataset_at (snd st) u' d'" for u' d'
    by (simp add: st0_def dataset_at_ensure)
  show ?thesis
  proof (cases "config vm")
    case None
    from for_datasets_no_config [OF None run0] have "map fst ds0 = []" "st' = st0" by simp_all
    then show ?thesis using same0 at0 by simp
  next
    case (Some c)
    from for_datasets_effect [OF Some same0, of u "map fst ds0"] run0
    have "same_listing ds0 (fst st')"
      and "\<And>u' d'. dataset_at (snd st') u' d' =
            (if u' = u \<and> d' \<in> set (map fst ds0) \<and> attaches vm c d' \<and> d' \<in> fst ` set ds0
             then map_option coerce (map_of ds0 d') else dataset_at (snd st0) u' d')"
      by auto
    then show ?thesis using vm Some at0 by auto
  qed
qed

lemma each_disk_effect:
  "each_disk registry us st = (None, st') \<Longrightarrow> same_listing ds0 (fst st) \<Longrightarrow>
   same_listing ds0 (fst st') \<and>
     (\<forall>u d. dataset_at (snd st') u d =
        (if u \<in> set us \<and> d \<in> fst ` set ds0
            \<and> (\<exists>vm c. map_of registry u = Some vm \<and> config vm = Some c \<and> attaches vm c d)
         then map_option coerce (map_of ds0 d) else dataset_at (snd st) u d))"
proof (induction us arbitrary: st)
  case Nil
  then show ?case by simp
next
  case (Cons u1 us)
  from Cons.prems(1) obtain st1 where one: "disk_vm registry u1 st = (None, st1)"
    and more: "each_disk registry us st1 = (None, st')"
    by (auto split: prod.splits option.splits)
  from disk_vm_effect [OF one Cons.prems(2)]
  have s1: "same_listing ds0 (fst st1)"
    and d1: "\<And>u d. dataset_at (snd st1) u d =
        (if u = u1 \<and> d \<in> fst ` set ds0
            \<and> (\<exists>vm c. map_of registry u1 = Some vm \<and> config vm = Some c \<and> attaches vm c d)
         then map_option coerce (map_of ds0 d) else dataset_at (snd st) u d)"
    by auto
  from Cons.IH [OF more s1]
  have s': "same_listing ds0 (fst st')"
    and d': "\<And>u d. dataset_at (snd st') u d =
        (if u \<in> set us \<and> d \<in> fst ` set ds0
            \<and> (\<exists>vm c. map_of registry u = Some vm \<and> config vm = Some c \<and> attaches vm c d)
         then map_option coerce (map_of ds0 d) else dataset_at (snd st1) u d)"
    by auto
  have "dataset_at (snd st') u d =
        (if u \<in> set (u1 # us) \<and> d \<in> fst ` set ds0
            \<and> (\<exists>vm c. map_of registry u = Some vm \<and> config vm = Some c \<and> attaches vm c d)
         then map_option coerce (map_of ds0 d) else dataset_at (snd st) u d)" for u d
    unfolding d' d1 by auto
  with s' show ?case by blast
qed

lemma updateDisk_effect:
  assumes "updateDisk e w = (Completed, w')" and "zfs_get e = Inr ds0"
  shows "dataset_at (disk w') u d =
        (if d \<in> fst ` set ds0
            \<and> (\<exists>vm c. map_of (vms w) u = Some vm \<and> config vm = Some c \<and> attaches vm c d)
         then map_option coerce (map_of ds0 d) else dataset_at (disk w) u d)"
proof -
  from assms obtain st' where run: "each_disk (vms w) (map fst (vms w)) (ds0, disk w) = (None, st')"
    and w': "w' = w\<lparr>disk := snd st'\<rparr>"
    by (auto simp: updateDisk_def split: prod.splits option.splits)
  have "same_listing ds0 (fst (ds0, disk w))" by (simp add: same_listing_refl)
  from each_disk_effect [OF run this]
  have "\<forall>u d. dataset_at (snd st') u d =
        (if u \<in> set (map fst (vms w)) \<and> d \<in> fst ` set ds0
            \<and> (\<exists>vm c. map_of (vms w) u = Some vm \<and> config vm = Some c \<and> attaches vm c d)
         then map_option coerce (map_of ds0 d) else dataset_at (snd (ds0, disk w)) u d)"
    by (rule conjunct2)
  then have "dataset_at (snd st') u d =
        (if u \<in> set (map fst (vms w)) \<and> d \<in> fst ` set ds0
            \<and> (\<exists>vm c. map_of (vms w) u = Some vm \<and> config vm = Some c \<and> attaches vm c d)
         then map_option coerce (map_of ds0 d) else dataset_at (snd (ds0, disk w)) u d)"
    by blast
  then have eq: "dataset_at (snd st') u d =
        (if u \<in> set (map fst (vms w)) \<and> d \<in> fst ` set ds0
            \<and> (\<exists>vm c. map_of (vms w) u = Some vm \<and> config vm = Some c \<and> attaches vm c d)
         then map_option coerce (map_of ds0 d) else dataset_at (disk w) u d)"
    by (simp only: snd_conv)
  have mem: "u \<in> set (map fst (vms w))" if "map_of (vms w) u = Some vm" for vm
    using that by (auto dest: map_of_SomeD intro: rev_image_eqI)
  have "dataset_at (disk w') u d = dataset_at (snd st') u d" using w' by simp
  also note eq
  also have "(if u \<in> set (map fst (vms w)) \<and> d \<in> fst ` set ds0
            \<and> (\<exists>vm c. map_of (vms w) u = Some vm \<and> config vm = Some c \<and> attaches vm c d)
         then map_option coerce (map_of ds0 d) else dataset_at (disk w) u d) =
        (if d \<in> fst ` set ds0
            \<and> (\<exists>vm c. map_of (vms w) u = Some vm \<and> config vm = Some c \<and> attaches vm c d)
         then map_option coerce (map_of ds0 d) else dataset_at (disk w) u d)"
    using mem by auto
  finally show ?thesis .
qed




text \<open>
  C6. For a dataset attached to an instance, the stored properties are those of the
  listing, where a value is replaced by its \<open>parseInt\<close> exactly when its key is one
  of \<open>used\<close>, \<open>available\<close>, \<open>referenced\<close>, \<open>quota\<close>, \<open>volsize\<close> and it is not the text
  \<open>-\<close>. A value \<open>-\<close> stays as it is under every key, and the values of the other
  keys stay text. \<open>parseInt\<close> turns a text of decimal digits into the number it
  writes.
\<close>

theorem updateDisk_converts_numeric:
  assumes "updateDisk e w = (Completed, w')" and "zfs_get e = Inr ds0"
    and "map_of (vms w) u = Some vm" and "config vm = Some c" and "attaches vm c d"
    and "map_of ds0 d = Some ps" and "map_of ps k = Some x"
  shows "(\<exists>ps'. dataset_at (disk w') u d = Some ps'
            \<and> map fst ps' = map fst ps
            \<and> map_of ps' k =
                Some (if x \<noteq> Str ''-''
                         \<and> k \<in> {''used'', ''available'', ''referenced'', ''quota'', ''volsize''}
                      then parseInt x else x))
       \<and> (\<forall>ds. ds \<noteq> [] \<and> list_all is_digit ds \<longrightarrow>
              parseInt (Str ds) = Num (int (Number_digits ds)))"
proof -
  have "d \<in> fst ` set ds0"
    using assms(6) by (auto dest: map_of_SomeD intro: rev_image_eqI)
  then have "dataset_at (disk w') u d = Some (coerce ps)"
    using updateDisk_effect [OF assms(1,2), of u d] assms(3-6) by auto
  moreover have "map_of (coerce ps) k =
                Some (if x \<noteq> Str ''-''
                         \<and> k \<in> {''used'', ''available'', ''referenced'', ''quota'', ''volsize''}
                      then parseInt x else x)"
    using assms(7) by (simp add: map_of_coerce numKeys_def)
  ultimately show ?thesis
    using map_fst_coerce [of ps] parseInt_digits by blast
qed

theorem updateDisk_converts_numeric_witness:
  "(\<exists>ps'. dataset_at (disk (snd (updateDisk
       (host [] [zone_of ''abc'', zone_of ''def''] all_running config_of)
       (snd (updateVirtualMachines
          (host [] [zone_of ''abc'', zone_of ''def''] all_running config_of) Watcher)))))
       ''abc'' ''pool0/zones/abc'' = Some ps'
      \<and> map_of ps' ''used'' = Some (Num 1024))
   \<and> (\<exists>ps'. dataset_at (disk (snd (updateDisk
       (host [] [zone_of ''abc'', zone_of ''def''] all_running config_of)
       (snd (updateVirtualMachines
          (host [] [zone_of ''abc'', zone_of ''def''] all_running config_of) Watcher)))))
       ''abc'' ''pool0/zones/abc'' = Some ps'
      \<and> map_of ps' ''quota'' = Some (Str ''-''))"
proof -
  let ?e = "host [] [zone_of ''abc'', zone_of ''def''] all_running config_of"
  let ?w = "snd (updateVirtualMachines ?e Watcher)"
  let ?c = "\<lparr>cfg_name = ''abc'', zonepath = ''/pool0/zones/abc'', attr_alias = None\<rparr>"
  let ?vm = "\<lparr>uuid = ''abc'', os_uuid = ''os-abc'', timestamp = ''2013-06-01T00:00:05.000Z'',
              status = Some ''running'', config = Some ?c\<rparr>"
  let ?ps = "[(''used'', Str ''1024''), (''quota'', Str ''-''), (''type'', Str ''filesystem'')]"
  have run: "updateDisk ?e ?w = (Completed, snd (updateDisk ?e ?w))"
    by code_simp
  have ds: "zfs_get ?e = Inr listing"
    by (simp add: host_def)
  have reg: "map_of (vms ?w) ''abc'' = Some ?vm"
    by code_simp
  have cfg: "config ?vm = Some ?c"
    by simp
  have att: "attaches ?vm ?c ''pool0/zones/abc''"
    by code_simp
  have d: "map_of listing ''pool0/zones/abc'' = Some ?ps"
    by code_simp
  have k1: "map_of ?ps ''used'' = Some (Str ''1024'')" and k2: "map_of ?ps ''quota'' = Some (Str ''-'')"
    by simp_all
  have p: "parseInt (Str ''1024'') = Num 1024"
    by code_simp
  from updateDisk_converts_numeric [OF run ds reg cfg att d k1] p
  have "\<exists>ps'. dataset_at (disk (snd (updateDisk ?e ?w))) ''abc'' ''pool0/zones/abc'' = Some ps'
      \<and> map_of ps' ''used'' = Some (Num 1024)"
    by auto
  moreover from updateDisk_converts_numeric [OF run ds reg cfg att d k2]
  have "\<exists>ps'. dataset_at (disk (snd (updateDisk ?e ?w))) ''abc'' ''pool0/zones/abc'' = Some ps'
      \<and> map_of ps' ''quota'' = Some (Str ''-'')"
    by auto
  ultimately show ?thesis by (rule conjI)
qed

section \<open>Properties of the counter start\<close>

text \<open>
  C3. The claim asks for boot time plus the creation offset. The code divides the
  offset in nanoseconds by \<open>10^9\<close>, which gives seconds, and adds the quotient to a
  value in milliseconds. For a host booted at second 1000000 and a link created 5
  seconds after boot (\<open>crtime = 5000000000\<close>) the recorded time is 5 milliseconds
  after boot, not 5 seconds.
\<close>

theorem counter_start_unit_mismatch:
  "counter_start_value 1000000 5000000000 = 1000000005
   \<and> counter_start_spec 1000000 5000000000 = 1000005000"
  by code_simp

text \<open>
  The sum is rounded before the Date truncates it: a link created 2999999999 ns after
  boot gets the millisecond 3, where the exact sum would be truncated to 2. A counter
  far out of range makes the Date invalid.
\<close>

lemma counter_start_rounds:
  "counter_start_value 1000000 2999999999 = 1000000003
   \<and> \<not> invalid_date (time_value 1000000 2999999999)
   \<and> invalid_date (time_value 1000000 (10 ^ 25))"
  by code_simp

section \<open>Properties of the cycle\<close>

lemma updateDisk_drops_error:
  "zfs_get e = Inl geterr \<Longrightarrow> updateDisk e w = (Completed, w)"
  by (simp add: updateDisk_def)

text \<open>
  C2. The claim: no snapshot is emitted from a cycle whose gather stages did not all
  complete. On a host where \<open>zfs.get\<close> fails, the disk collection has gathered
  nothing, but the final function of its waterfall calls \<open>callback()\<close> without the
  error, so the cycle goes on: it emits the snapshot of \<open>abc\<close> with no disk usage at
  all, or, on a watcher that has run before, with the disk usage of the earlier
  cycle, and it logs no error. The sibling \<open>updateNetworkUsage\<close> hands the error of
  its waterfall to its callback.
\<close>

theorem zfs_error_is_dropped:
  "zfs_get (zfs_fails (host [stat ''z1_net0''] [zone_of ''abc''] all_running config_of))
     = Inl (Error ''zfs get: cannot open pool0'')
   \<and> emitted_disk_usage (fst (gatherStateAllZones
        (zfs_fails (host [stat ''z1_net0''] [zone_of ''abc''] all_running config_of)) Watcher))
     = [(''abc'', None)]
   \<and> logged (snd (gatherStateAllZones
        (zfs_fails (host [stat ''z1_net0''] [zone_of ''abc''] all_running config_of)) Watcher))
     = [Info]
   \<and> emitted_disk_usage (fst (gatherStateAllZones
        (zfs_fails (host [stat ''z1_net0''] [zone_of ''abc''] all_running config_of))
        (snd (gatherStateAllZones
           (host [stat ''z1_net0''] [zone_of ''abc''] all_running config_of) Watcher))))
     = [(''abc'',
         Some [(''pool0/zones/abc'',
                [(''used'', Num 1024), (''quota'', Str ''-''), (''type'', Str ''filesystem'')]),
               (''pool0/cores/abc'',
                [(''used'', Num 31), (''volsize'', Str ''-''),
                 (''mountpoint'', Str ''/pool0/cores/abc'')])])]"
  by code_simp

text \<open>
  A zone listing that fails stops the cycle with an exception, and a healthy host
  emits one snapshot for each instance and logs the duration.
\<close>

lemma gatherStateAllZones_examples:
  "fst (gatherStateAllZones
          (no_zone_listing (host [stat ''z1_net0''] [zone_of ''abc''] all_running config_of))
          Watcher)
     = [Uncaught (Error ''TypeError: arr is undefined'')]
   \<and> emitted_uuids (fst (gatherStateAllZones
          (host [stat ''z1_net0'', stat ''z3_net1''] [zone_of ''abc'', zone_of ''def'']
             all_running config_of) Watcher))
     = [''abc'', ''def'']
   \<and> logged (snd (gatherStateAllZones
          (host [stat ''z1_net0'', stat ''z3_net1''] [zone_of ''abc'', zone_of ''def'']
             all_running config_of) Watcher))
     = [Info]"
  by code_simp

text \<open>
  C1. The zones \<open>abc\<close> and \<open>def\<close> are listed, \<open>abc\<close> has just been destroyed: its state
  lookup fails with \<open>No such zone configured\<close> and its config can no longer be read.
  \<open>onVm\<close> enters \<open>abc\<close> into the registry before the lookup, logs the warning and calls
  \<open>cb()\<close>, and then goes on to \<open>common.vmGet\<close>, whose error it hands to the callback of
  the stage: the error is logged as the error of the cycle. When \<open>def\<close> has its
  config, \<open>async.each\<close> is complete and calls the callback of the stage again, so the
  disk collection starts and raises a TypeError at \<open>abc\<close>, which is still in the
  registry and has no config. No snapshot is emitted, for \<open>def\<close> either.
\<close>

theorem destroyed_zone_fails_cycle:
  "getZoneState (host [stat ''z1_net0''] [zone_of ''abc'', zone_of ''def'']
                   abc_destroyed config_abc_gone) ''abc''
     = Inl (Error ''zone_get_state: No such zone configured'')
   \<and> fst (gatherStateAllZones
        (host [stat ''z1_net0''] [zone_of ''abc'', zone_of ''def''] abc_destroyed config_abc_gone)
        Watcher) = [Uncaught (Error ''TypeError: vm.config is undefined'')]
   \<and> logged (snd (gatherStateAllZones
        (host [stat ''z1_net0''] [zone_of ''abc'', zone_of ''def''] abc_destroyed config_abc_gone)
        Watcher))
     = [Warn ''abc'', LogError (Error ''ENOENT: abc.xml''), Info]
   \<and> map fst (vms (snd (gatherStateAllZones
        (host [stat ''z1_net0''] [zone_of ''abc'', zone_of ''def''] abc_destroyed config_abc_gone)
        Watcher)))
     = [''abc'', ''def'']"
  by code_simp

text \<open>
  When the config of the destroyed zone can still be read, \<open>cb()\<close> is called a second
  time for \<open>abc\<close> and \<open>async.each\<close> raises.
\<close>

lemma destroyed_zone_calls_back_twice:
  "updateVirtualMachines
     (host [] [zone_of ''abc'', zone_of ''def''] abc_destroyed config_of) Watcher
   = ([Thrown (Error ''Callback was already called.'')],
      snd (updateVirtualMachines
        (host [] [zone_of ''abc'', zone_of ''def''] abc_destroyed config_of) Watcher))
   \<and> map (\<lambda>kv. (fst kv, status (snd kv))) (vms (snd (updateVirtualMachines
        (host [] [zone_of ''abc'', zone_of ''def''] abc_destroyed config_of) Watcher)))
     = [(''abc'', None), (''def'', Some ''running'')]"
  by code_simp

text \<open>
  C9. First cycle: \<open>abc\<close> and \<open>def\<close> are listed. Second cycle, on the same watcher:
  \<open>abc\<close> is gone from the zone listing, from the link statistics and from the dataset
  listing. The registry and the disk map are never emptied, so the second cycle
  still emits a snapshot for \<open>abc\<close>, with the datasets of the first cycle; a watcher
  that starts on the second host state emits \<open>def\<close> alone. And after the failed cycle
  of C1, which leaves \<open>abc\<close> in the registry without a config, the next cycle on the
  healthy host ends in a TypeError instead of producing snapshots.
\<close>

theorem stale_state_survives_cycles:
  "map_option (map zone_name) (vmListFromFile host_without_abc) = Some [''def'']
   \<and> map_of listing_without_abc ''pool0/zones/abc'' = None
   \<and> emitted_uuids (fst (gatherStateAllZones host_without_abc
        (snd (gatherStateAllZones
           (host [stat ''z1_net0'', stat ''z3_net1''] [zone_of ''abc'', zone_of ''def'']
              all_running config_of) Watcher))))
     = [''abc'', ''def'']
   \<and> dataset_at (disk (snd (gatherStateAllZones host_without_abc
        (snd (gatherStateAllZones
           (host [stat ''z1_net0'', stat ''z3_net1''] [zone_of ''abc'', zone_of ''def'']
              all_running config_of) Watcher)))))
        ''abc'' ''pool0/zones/abc''
     = Some [(''used'', Num 1024), (''quota'', Str ''-''), (''type'', Str ''filesystem'')]
   \<and> emitted_uuids (fst (gatherStateAllZones host_without_abc Watcher)) = [''def'']
   \<and> fst (gatherStateAllZones host_without_abc
        (snd (gatherStateAllZones
           (host [stat ''z1_net0''] [zone_of ''abc'', zone_of ''def'']
              abc_destroyed config_abc_gone) Watcher)))
     = [Uncaught (Error ''TypeError: vm.config is undefined'')]"
  by code_simp

end
